theory Spec2Isabelle
  imports Main "HOL-Library.Word" "HOL-Library.AList" "HOL-Library.Sublist"
begin

section \<open>The limiter package of XrayR (common/limiter/limiter.go)\<close>

text \<open>
  A shallow embedding of the admission-control core: the inbound registry, the local
  device tracker, the global device ledger, the rate bucket registry and the
  online/traffic reconciler. Every Go function of \<^verbatim>\<open>limiter.go\<close> that a property
  below talks about is a HOL function of the same name. Mutation through pointers is
  explicit state passing; what the code reads from its environment (the process-wide
  alive-IP table, the answer of the two-tier cache) is a parameter; what it hands to the
  environment (a goroutine it starts, a log line) is a list of events.
\<close>

subsection \<open>Machine integers and strings\<close>

text \<open>
  \<^verbatim>\<open>uint64\<close> and \<^verbatim>\<open>int64\<close> are 64-bit words: \<open>+\<close> and \<open>-\<close> wrap, \<open><\<close> and
  \<open>\<le>\<close> on words compare unsigned, \<open><s\<close> and \<open>\<le>s\<close> compare signed. Go's \<^verbatim>\<open>int\<close>
  (UIDs, device limits, counts of map entries) is \<open>int\<close>: the code only compares
  such values and adds two container sizes, which cannot overflow 64 bits.
\<close>

type_synonym uint64 = "64 word"
type_synonym int64 = "64 word"

text \<open>\<^verbatim>\<open>strconv.Itoa\<close> and the \<^verbatim>\<open>%d\<close> verb: the decimal digits, with a minus sign.\<close>

fun natToString :: "nat \<Rightarrow> string" where
  "natToString n =
     (if n < 10 then [''0123456789'' ! n]
      else natToString (n div 10) @ [''0123456789'' ! (n mod 10)])"

declare natToString.simps [simp del]

definition Itoa :: "int \<Rightarrow> string" where
  "Itoa i = (if i < 0 then CHR ''-'' # natToString (nat (- i)) else natToString (nat i))"

text \<open>
  \<^verbatim>\<open>strings.Replace(s, old, new, 1)\<close>: the first occurrence of \<open>old\<close> in \<open>s\<close> is
  replaced; an empty \<open>old\<close> matches at the beginning of \<open>s\<close>; without an occurrence
  \<open>s\<close> is returned as it is.
\<close>

fun strings_Replace_1 :: "string \<Rightarrow> string \<Rightarrow> string \<Rightarrow> string" where
  "strings_Replace_1 [] old new = (if old = [] then new else [])"
| "strings_Replace_1 (c # cs) old new =
     (if prefix old (c # cs) then new @ drop (length old) (c # cs)
      else c # strings_Replace_1 cs old new)"

subsection \<open>Concurrent maps and Go maps\<close>

text \<open>
  A \<^verbatim>\<open>sync.Map\<close> is an association list: \<^verbatim>\<open>Range\<close> visits the entries in the order
  of the list, which stands for whatever order the runtime picks (a property proved for
  every list holds for every order). \<^verbatim>\<open>Store\<close> overwrites the entry of a key where it
  stands and puts a new key at the end, \<^verbatim>\<open>Delete\<close> removes the entry of a key,
  \<^verbatim>\<open>LoadOrStore\<close> returns the value found (and true), or stores and returns the
  given value (and false).
\<close>

type_synonym ('k, 'v) sync_Map = "('k \<times> 'v) list"

definition Load :: "('k, 'v) sync_Map \<Rightarrow> 'k \<Rightarrow> 'v option" where
  "Load m k = map_of m k"

definition Store :: "('k, 'v) sync_Map \<Rightarrow> 'k \<Rightarrow> 'v \<Rightarrow> ('k, 'v) sync_Map" where
  "Store m k v = AList.update k v m"

definition Delete :: "('k, 'v) sync_Map \<Rightarrow> 'k \<Rightarrow> ('k, 'v) sync_Map" where
  "Delete m k = AList.delete k m"

definition LoadOrStore :: "('k, 'v) sync_Map \<Rightarrow> 'k \<Rightarrow> 'v \<Rightarrow> 'v \<times> bool \<times> ('k, 'v) sync_Map" where
  "LoadOrStore m k v =
     (case Load m k of
        Some actual \<Rightarrow> (actual, True, m)
      | None \<Rightarrow> (v, False, Store m k v))"

text \<open>
  A Go \<^verbatim>\<open>map[K]V\<close> is a partial function; indexing a missing key yields the zero
  value of \<open>V\<close>, \<^verbatim>\<open>len\<close> is the number of keys.
\<close>

definition index :: "'v \<Rightarrow> ('k \<rightharpoonup> 'v) \<Rightarrow> 'k \<Rightarrow> 'v" where
  "index zero m k = (case m k of None \<Rightarrow> zero | Some v \<Rightarrow> v)"

definition len :: "('k \<rightharpoonup> 'v) \<Rightarrow> int" where
  "len m = int (card (dom m))"

text \<open>Filling a Go map from a \<^verbatim>\<open>Range\<close> over a concurrent map, entry by entry.\<close>

definition collect :: "('k, 'v) sync_Map \<Rightarrow> ('k \<rightharpoonup> 'v)" where
  "collect m = foldl (\<lambda>acc (k, v). acc(k \<mapsto> v)) Map.empty m"

subsection \<open>Data model\<close>

text \<open>The quota of a user, as the limiter keeps it.\<close>

record UserInfo =
  UID :: int
  SpeedLimit :: uint64
  DeviceLimit :: int

text \<open>
  Modelled from the spec: the record \<^verbatim>\<open>api.UserInfo\<close> of the panel interface is
  declared outside the sources at hand; the fields are those the limiter and the
  panel client read and write ({UID, external identifier, speed limit, device limit}).
\<close>

record api_UserInfo =
  api_UID :: int
  api_Email :: string
  api_SpeedLimit :: uint64
  api_DeviceLimit :: int

text \<open>
  Modelled from the spec: \<^verbatim>\<open>api.OnlineUser\<close>, an entry {UID, IP} of the online
  report, is declared outside the sources at hand.
\<close>

record OnlineUser =
  OnlineUser_UID :: int
  OnlineUser_IP :: string

text \<open>
  Modelled from the spec: \<^verbatim>\<open>GlobalDeviceLimitConfig\<close> is declared outside the
  sources at hand; the fields are those \<^verbatim>\<open>AddInboundLimiter\<close> reads ({enabled, TTL,
  per-operation timeout, distributed-cache connection parameters}).
\<close>

record GlobalDeviceLimitConfig =
  Enable :: bool
  RedisNetwork :: string
  RedisAddr :: string
  RedisUsername :: string
  RedisPassword :: string
  RedisDB :: int
  Timeout :: int
  Expiry :: int

text \<open>
  A \<^verbatim>\<open>rate.Limiter\<close>: the rate it refills at and its burst. The rate is kept as the
  \<^verbatim>\<open>uint64\<close> that \<^verbatim>\<open>rate.Limit(limit)\<close> converts, the burst is \<^verbatim>\<open>int(limit)\<close>, the
  64 bits read as a signed number. The tokens it holds are not part of the model.
\<close>

record rate_Limiter =
  rate_limit :: uint64
  rate_burst :: int

definition NewLimiter :: "uint64 \<Rightarrow> int \<Rightarrow> rate_Limiter" where
  "NewLimiter r b = \<lparr>rate_limit = r, rate_burst = b\<rparr>"

definition SetLimit :: "rate_Limiter \<Rightarrow> uint64 \<Rightarrow> rate_Limiter" where
  "SetLimit lim r = lim\<lparr>rate_limit := r\<rparr>"

definition SetBurst :: "rate_Limiter \<Rightarrow> int \<Rightarrow> rate_Limiter" where
  "SetBurst lim b = lim\<lparr>rate_burst := b\<rparr>"

text \<open>
  The state of one inbound. The comments of the struct give other key types for
  \<^verbatim>\<open>OnlineDevice\<close>, \<^verbatim>\<open>ipAllowedMap\<close> and \<^verbatim>\<open>Otraffic\<close>; the types here are the ones
  the code stores: \<^verbatim>\<open>OnlineDevice\<close> maps a UID to an IP, \<^verbatim>\<open>ipAllowedMap\<close> an IP to
  its status, \<^verbatim>\<open>Otraffic\<close> a UID to its cumulative traffic. Of the \<^verbatim>\<open>GlobalLimit\<close>
  pair the state holds the configuration; the cache handle \<^verbatim>\<open>globalOnlineIP\<close> is
  built from that configuration and is present exactly when the configuration is (both
  are assigned only in \<^verbatim>\<open>AddInboundLimiter\<close>), its lookups and writes belong to the
  environment.
\<close>

record InboundInfo =
  Tag :: string
  NodeSpeedLimit :: uint64
  UserInfo :: "(string, UserInfo) sync_Map"
  BucketHub :: "(string, rate_Limiter) sync_Map"
  UserOnlineIP :: "(string, (string, int) sync_Map) sync_Map"
  OnlineDevice :: "(int, string) sync_Map"
  ipAllowedMap :: "(string, int) sync_Map"
  Otraffic :: "(int, int64) sync_Map"
  GlobalLimit_config :: "GlobalDeviceLimitConfig option"

record Limiter =
  InboundInfo :: "(string, InboundInfo) sync_Map"

text \<open>A Go \<^verbatim>\<open>error\<close> made by \<^verbatim>\<open>fmt.Errorf\<close>: its message.\<close>

datatype error = Errorf string

text \<open>
  What the two-tier cache answers to \<^verbatim>\<open>Get\<close>: a decoded IP-to-UID map, the error
  \<^verbatim>\<open>store.NotFound\<close>, or any other error (the deadline of the lookup passed, the
  distributed tier cannot be reached, the entry cannot be decoded).
\<close>

datatype cache_error = DeadlineExceeded | Unreachable | Undecodable

datatype Get_result = Found "string \<rightharpoonup> int" | NotFound | Failed cache_error

text \<open>
  What a call hands to its environment: a goroutine running \<^verbatim>\<open>pushIP\<close> on a key and
  a map, a line of the error log, a line of the debug log.
\<close>

datatype event =
  Go_pushIP string "string \<rightharpoonup> int"
| LogErrorInner cache_error
| LogDebug string

subsection \<open>The inbound registry\<close>

definition New :: Limiter where
  "New = \<lparr>InboundInfo = []\<rparr>"

text \<open>The key \<^verbatim>\<open>fmt.Sprintf("%s|%s|%d", tag, u.Email, u.UID)\<close> of a user.\<close>

definition userKey :: "string \<Rightarrow> api_UserInfo \<Rightarrow> string" where
  "userKey tag u = tag @ ''|'' @ api_Email u @ ''|'' @ Itoa (api_UID u)"

definition quotaOf :: "api_UserInfo \<Rightarrow> UserInfo" where
  "quotaOf u = \<lparr>UID = api_UID u, SpeedLimit = api_SpeedLimit u, DeviceLimit = api_DeviceLimit u\<rparr>"

definition AddInboundLimiter ::
  "Limiter \<Rightarrow> string \<Rightarrow> uint64 \<Rightarrow> api_UserInfo list \<Rightarrow> GlobalDeviceLimitConfig option
     \<Rightarrow> error + Limiter" where
  "AddInboundLimiter l tag nodeSpeedLimit userList globalLimit =
     (let inboundInfo =
            \<lparr>Tag = tag, NodeSpeedLimit = nodeSpeedLimit, UserInfo = [], BucketHub = [],
             UserOnlineIP = [], OnlineDevice = [], ipAllowedMap = [], Otraffic = [],
             GlobalLimit_config =
               (case globalLimit of
                  Some g \<Rightarrow> if Enable g then Some g else None
                | None \<Rightarrow> None)\<rparr>;
          userMap = foldl (\<lambda>m u. Store m (userKey tag u) (quotaOf u)) [] userList
      in Inr (l\<lparr>InboundInfo :=
                 Store (InboundInfo l) tag (inboundInfo\<lparr>UserInfo := userMap\<rparr>)\<rparr>))"

text \<open>determineRate returns the minimum non-zero rate.\<close>

definition determineRate :: "uint64 \<Rightarrow> uint64 \<Rightarrow> uint64" where
  "determineRate nodeLimit userLimit =
     (if nodeLimit = 0 \<or> userLimit = 0 then
        (if nodeLimit > userLimit then nodeLimit
         else if nodeLimit < userLimit then userLimit
         else 0)
      else
        (if nodeLimit > userLimit then userLimit
         else if nodeLimit < userLimit then nodeLimit
         else nodeLimit))"

text \<open>
  One round of the loop of \<^verbatim>\<open>UpdateInboundLimiter\<close>: the quota of the user is stored,
  then its bucket, when there is one, is set to the new rate, or deleted when the new
  rate is 0. The bucket is changed through its pointer, so it stays where it is.
\<close>

definition updateUser :: "string \<Rightarrow> InboundInfo \<Rightarrow> api_UserInfo \<Rightarrow> InboundInfo" where
  "updateUser tag inboundInfo u =
     (let inb = inboundInfo\<lparr>UserInfo := Store (UserInfo inboundInfo) (userKey tag u) (quotaOf u)\<rparr>;
          limit = determineRate (NodeSpeedLimit inb) (api_SpeedLimit u)
      in if limit > 0 then
           (case Load (BucketHub inb) (userKey tag u) of
              Some bucket \<Rightarrow>
                inb\<lparr>BucketHub :=
                      Store (BucketHub inb) (userKey tag u)
                        (SetBurst (SetLimit bucket limit) (sint limit))\<rparr>
            | None \<Rightarrow> inb)
         else inb\<lparr>BucketHub := Delete (BucketHub inb) (userKey tag u)\<rparr>)"

definition UpdateInboundLimiter :: "Limiter \<Rightarrow> string \<Rightarrow> api_UserInfo list \<Rightarrow> error + Limiter" where
  "UpdateInboundLimiter l tag updatedUserList =
     (case Load (InboundInfo l) tag of
        Some inboundInfo \<Rightarrow>
          Inr (l\<lparr>InboundInfo :=
                   Store (InboundInfo l) tag (foldl (updateUser tag) inboundInfo updatedUserList)\<rparr>)
      | None \<Rightarrow> Inl (Errorf (''no such inbound in limiter: '' @ tag)))"

definition DeleteInboundLimiter :: "Limiter \<Rightarrow> string \<Rightarrow> error + Limiter" where
  "DeleteInboundLimiter l tag = Inr (l\<lparr>InboundInfo := Delete (InboundInfo l) tag\<rparr>)"

definition ResetOtraffic :: "Limiter \<Rightarrow> string \<Rightarrow> error + Limiter" where
  "ResetOtraffic l tag =
     (case Load (InboundInfo l) tag of
        Some inboundInfo \<Rightarrow>
          Inr (l\<lparr>InboundInfo := Store (InboundInfo l) tag (inboundInfo\<lparr>Otraffic := []\<rparr>)\<rparr>)
      | None \<Rightarrow> Inr l)"

subsection \<open>The online/traffic reconciler\<close>

text \<open>
  The variables the callbacks of \<^verbatim>\<open>GetOnlineDevice\<close> share: \<open>uid\<close>, \<open>X\<close>, \<open>A\<close> and
  \<open>pip\<close> are declared once for each user and kept from one IP of the user to the next;
  the report, the flag and the two maps of the new cycle are kept through the whole run.
\<close>

record cycle =
  v_uid :: int
  v_X :: int64
  v_A :: int
  v_pip :: string
  onlineUser :: "OnlineUser list"
  diff :: bool
  newOnlineDevice :: "(int, string) sync_Map"
  newOtraffic :: "(int, int64) sync_Map"

text \<open>The callback of \<^verbatim>\<open>ipMap.Range\<close>, for one entry (IP, UID) of a user.\<close>

definition rangeIP ::
  "(string, int) sync_Map \<Rightarrow> (int \<rightharpoonup> int64) \<Rightarrow> (int \<rightharpoonup> int64) \<Rightarrow> (int \<rightharpoonup> string) \<Rightarrow> int64
     \<Rightarrow> cycle \<Rightarrow> string \<times> int \<Rightarrow> cycle" where
  "rangeIP allowed userTraffic PrevT PrevO T c entry =
     (let ip = fst entry;
          c1 = c\<lparr>v_uid := snd entry\<rparr>;
          c2 = (case Load allowed ip of Some a \<Rightarrow> c1\<lparr>v_A := a\<rparr> | None \<Rightarrow> c1);
          c3 = c2\<lparr>newOtraffic := Store (newOtraffic c2) (v_uid c2) (index 0 userTraffic (v_uid c2))\<rparr>;
          c4 = c3\<lparr>v_X := index 0 userTraffic (v_uid c3) - index 0 PrevT (v_uid c3)\<rparr>;
          c5 = c4\<lparr>v_pip := index [] PrevO (v_uid c4)\<rparr>
      in if v_A c5 \<noteq> 2 then
           (let ip' = (if v_X c5 \<le>s T then [] else ip);
                c6 = (if v_pip c5 \<noteq> ip' then c5\<lparr>diff := True\<rparr> else c5);
                c7 = c6\<lparr>onlineUser :=
                          onlineUser c6 @ [\<lparr>OnlineUser_UID = v_uid c6, OnlineUser_IP = ip'\<rparr>]\<rparr>
            in c7\<lparr>newOnlineDevice := Store (newOnlineDevice c7) (v_uid c7) ip'\<rparr>)
         else c5)"

text \<open>
  The callback of \<^verbatim>\<open>UserOnlineIP.Range\<close>, for one user: its IPs are visited, then its
  entry is deleted when the last status seen is 2 or the last delta is at most \<open>T\<close>.
\<close>

definition rangeUser ::
  "(string, int) sync_Map \<Rightarrow> (int \<rightharpoonup> int64) \<Rightarrow> (int \<rightharpoonup> int64) \<Rightarrow> (int \<rightharpoonup> string) \<Rightarrow> int64
     \<Rightarrow> cycle \<times> (string, (string, int) sync_Map) sync_Map
     \<Rightarrow> string \<times> (string, int) sync_Map
     \<Rightarrow> cycle \<times> (string, (string, int) sync_Map) sync_Map" where
  "rangeUser allowed userTraffic PrevT PrevO T st entry =
     (let email = fst entry;
          ipMap = snd entry;
          c = foldl (rangeIP allowed userTraffic PrevT PrevO T)
                ((fst st)\<lparr>v_uid := 0, v_X := 0, v_A := 0, v_pip := []\<rparr>) ipMap
      in if v_A c = 2 \<or> v_X c \<le>s T then (c, Delete (snd st) email) else (c, snd st))"

text \<open>
  The run of \<^verbatim>\<open>UserOnlineIP.Range\<close> in \<^verbatim>\<open>GetOnlineDevice\<close>: \<open>PrevT\<close> and \<open>PrevO\<close>
  are filled from the maps of the previous cycle before the loop, the maps of the new
  cycle start empty. The result is the variables after the last callback and what is
  left of \<^verbatim>\<open>UserOnlineIP\<close>.
\<close>

definition reconcile ::
  "InboundInfo \<Rightarrow> (int \<rightharpoonup> int64) \<Rightarrow> int64
     \<Rightarrow> cycle \<times> (string, (string, int) sync_Map) sync_Map" where
  "reconcile inboundInfo userTraffic T =
     (let PrevT = collect (Otraffic inboundInfo);
          PrevO = collect (OnlineDevice inboundInfo);
          start = \<lparr>v_uid = 0, v_X = 0, v_A = 0, v_pip = [], onlineUser = [], diff = False,
                   newOnlineDevice = [], newOtraffic = []\<rparr>
      in foldl (rangeUser (ipAllowedMap inboundInfo) userTraffic PrevT PrevO T)
           (start, UserOnlineIP inboundInfo) (UserOnlineIP inboundInfo))"

text \<open>
  \<^verbatim>\<open>GetOnlineDevice\<close>: first the buckets of the users that are not online are
  deleted, then the cycle is run. The result is the report, the flag and the registry,
  or the error for a tag without an inbound.
\<close>

definition GetOnlineDevice ::
  "Limiter \<Rightarrow> string \<Rightarrow> (int \<rightharpoonup> int64) \<Rightarrow> int64 \<Rightarrow> error + (OnlineUser list \<times> bool \<times> Limiter)" where
  "GetOnlineDevice l tag userTraffic T =
     (case Load (InboundInfo l) tag of
        Some inboundInfo \<Rightarrow>
          (let hub = foldl (\<lambda>h entry.
                        if Load (UserOnlineIP inboundInfo) (fst entry) = None
                        then Delete h (fst entry) else h)
                      (BucketHub inboundInfo) (BucketHub inboundInfo);
               fin = reconcile inboundInfo userTraffic T;
               c = fst fin
           in Inr (onlineUser c, diff c,
                   l\<lparr>InboundInfo :=
                       Store (InboundInfo l) tag
                         (inboundInfo\<lparr>BucketHub := hub, UserOnlineIP := snd fin,
                            OnlineDevice := newOnlineDevice c, Otraffic := newOtraffic c\<rparr>)\<rparr>))
      | None \<Rightarrow> Inl (Errorf (''no such inbound in limiter: '' @ tag)))"

text \<open>
  The traffic delta of a user in a cycle: the current cumulative counter minus the one
  of the previous cycle, both 0 when missing, in 64 bits.
\<close>

definition delta :: "(int \<rightharpoonup> int64) \<Rightarrow> (int, int64) sync_Map \<Rightarrow> int \<Rightarrow> int64" where
  "delta userTraffic previous uid = index 0 userTraffic uid - index 0 (collect previous) uid"

text \<open>
  The report as property C6 below states it, to be compared with what the callbacks
  compute: what a cycle with threshold \<open>T\<close> reports for one entry (IP, UID) of an
  OnlineIPSet, by the cached classification of the IP and the delta \<open>d\<close> of the
  user: nothing for an unpinned IP (2), otherwise the UID with the empty IP when the
  delta is at most \<open>T\<close> and with the IP when it is above.
\<close>

definition reported ::
  "(string, int) sync_Map \<Rightarrow> (int \<Rightarrow> int64) \<Rightarrow> int64 \<Rightarrow> string \<times> int \<Rightarrow> OnlineUser list" where
  "reported allowed d T entry =
     (if Load allowed (fst entry) = Some 2 then []
      else [\<lparr>OnlineUser_UID = snd entry,
             OnlineUser_IP = (if d (snd entry) \<le>s T then [] else fst entry)\<rparr>])"

text \<open>
  The snapshot as property C7 below states it: for each UID of an online report the IP
  of its last entry.
\<close>

definition snapshotOf :: "OnlineUser list \<Rightarrow> (int \<rightharpoonup> string)" where
  "snapshotOf report = map_of (rev (map (\<lambda>entry. (OnlineUser_UID entry, OnlineUser_IP entry)) report))"

text \<open>
  What holds of the variables of a cycle after every callback: the flag is set exactly
  when an entry of the report so far differs from \<open>PrevO\<close>, and the new snapshot has
  one entry for each UID, the snapshot of the report so far.
\<close>

definition consistent :: "(int \<rightharpoonup> string) \<Rightarrow> cycle \<Rightarrow> bool" where
  "consistent PrevO c \<longleftrightarrow>
     (diff c \<longleftrightarrow> (\<exists>e \<in> set (onlineUser c). index [] PrevO (OnlineUser_UID e) \<noteq> OnlineUser_IP e))
     \<and> distinct (map fst (newOnlineDevice c))
     \<and> map_of (newOnlineDevice c) = snapshotOf (onlineUser c)"

subsection \<open>The local device tracker\<close>

text \<open>
  The process-wide table \<^verbatim>\<open>api.UserAliveIPsMap\<close> (UID to pinned IPs) is a parameter;
  a UID without an entry has no alive IPs.
\<close>

definition GetUserAliveIPs :: "(int \<rightharpoonup> string list) \<Rightarrow> int \<Rightarrow> string list" where
  "GetUserAliveIPs UserAliveIPsMap user =
     (case UserAliveIPsMap user of None \<Rightarrow> [] | Some v \<Rightarrow> v)"

fun aliveLoop :: "string \<Rightarrow> string list \<Rightarrow> int" where
  "aliveLoop ip [] = 2"
| "aliveLoop ip (aliveIP # rest) = (if aliveIP = ip then 1 else aliveLoop ip rest)"

definition ipAllowed :: "string \<Rightarrow> string list \<Rightarrow> int" where
  "ipAllowed ip aliveIPs = (if length aliveIPs = 0 then 0 else aliveLoop ip aliveIPs)"

text \<open>
  The block of \<^verbatim>\<open>GetUserBucket\<close> under \<^verbatim>\<open>if isSourceTCP\<close>: whether it returns
  rejected, and the inbound as it leaves it. The inner map of a user is changed
  through its pointer, so it stays where it is in \<^verbatim>\<open>UserOnlineIP\<close>; \<open>counter\<close> is the
  number of entries \<^verbatim>\<open>Range\<close> visits.
\<close>

definition localDeviceLimit ::
  "(int \<rightharpoonup> string list) \<Rightarrow> InboundInfo \<Rightarrow> string \<Rightarrow> string \<Rightarrow> int \<Rightarrow> int \<Rightarrow> bool \<times> InboundInfo" where
  "localDeviceLimit UserAliveIPsMap inboundInfo email ip uid deviceLimit =
     (let aliveIPs = GetUserAliveIPs UserAliveIPsMap uid;
          ipStatus = ipAllowed ip aliveIPs;
          inb = inboundInfo\<lparr>ipAllowedMap := Store (ipAllowedMap inboundInfo) ip ipStatus\<rparr>
      in if ipStatus = 2 \<and> deviceLimit > 0 \<and> deviceLimit \<le> int (length aliveIPs) then (True, inb)
         else
           (case LoadOrStore (UserOnlineIP inb) email (Store [] ip uid) of
              (v, True, _) \<Rightarrow>
                (case LoadOrStore v ip uid of
                   (_, False, ipMap) \<Rightarrow>
                     (let counter = int (length ipMap)
                      in if ipStatus \<noteq> 1 \<and> deviceLimit > 0
                            \<and> deviceLimit < counter + int (length aliveIPs)
                         then (True, inb\<lparr>UserOnlineIP :=
                                 Store (UserOnlineIP inb) email (Delete ipMap ip)\<rparr>)
                         else (False, inb\<lparr>UserOnlineIP := Store (UserOnlineIP inb) email ipMap\<rparr>))
                 | (_, True, _) \<Rightarrow> (False, inb))
            | (_, False, users) \<Rightarrow> (False, inb\<lparr>UserOnlineIP := users\<rparr>)))"

subsection \<open>The global device ledger\<close>

text \<open>
  \<^verbatim>\<open>globalLimit\<close>: \<open>cache\<close> is what \<^verbatim>\<open>globalOnlineIP.Get\<close> answers for a key within
  the deadline. The result is the verdict and the events of the call. The function is
  reached only where the configuration of the inbound is present.
\<close>

definition globalLimit ::
  "(string \<Rightarrow> Get_result) \<Rightarrow> InboundInfo \<Rightarrow> string \<Rightarrow> int \<Rightarrow> string \<Rightarrow> int \<Rightarrow> bool \<times> event list" where
  "globalLimit cache inboundInfo email uid ip deviceLimit =
     (let uniqueKey = strings_Replace_1 email (Tag inboundInfo) (Itoa deviceLimit)
      in case cache uniqueKey of
           NotFound \<Rightarrow> (False, [Go_pushIP uniqueKey [ip \<mapsto> uid]])
         | Failed err \<Rightarrow> (False, [LogErrorInner err])
         | Found ipMap \<Rightarrow>
             if deviceLimit > 0 \<and> len ipMap > deviceLimit then (True, [])
             else if ipMap ip = None then (False, [Go_pushIP uniqueKey (ipMap(ip \<mapsto> uid))])
             else (False, []))"

text \<open>
  Modelled from the spec: the cache library behind \<^verbatim>\<open>globalOnlineIP.Set\<close> is not part
  of the sources; a ledger entry is a mapping IP to UID with a TTL equal to the
  configured expiry, which both tiers are created with in \<^verbatim>\<open>AddInboundLimiter\<close>.
  A \<^verbatim>\<open>Set\<close> that succeeds stores the entry. A \<^verbatim>\<open>Set\<close> that fails answers
  \<open>setErr\<close>: its error, and the ledger as the failed write leaves it, which is up to
  the cache (the chain writes the local tier before the distributed one, so the entry
  can be there for later lookups although the write failed). Without a configuration
  the function stops at a nil pointer (\<open>None\<close>).
\<close>

type_synonym ledger = "string \<rightharpoonup> (string \<rightharpoonup> int) \<times> int"

definition pushIP ::
  "ledger \<Rightarrow> (cache_error \<times> ledger) option \<Rightarrow> InboundInfo \<Rightarrow> string \<Rightarrow> (string \<rightharpoonup> int)
     \<Rightarrow> (ledger \<times> event list) option" where
  "pushIP store setErr inboundInfo uniqueKey ipMap =
     (case GlobalLimit_config inboundInfo of
        None \<Rightarrow> None
      | Some config \<Rightarrow>
          (case setErr of
             None \<Rightarrow> Some (store(uniqueKey \<mapsto> (ipMap, Expiry config)), [])
           | Some (err, left) \<Rightarrow> Some (left, [LogErrorInner err])))"

subsection \<open>Connection setup\<close>

text \<open>
  What \<^verbatim>\<open>GetUserBucket\<close> reads for a user: the entry of the user directory under
  \<open>email\<close>, or UID 0, no speed limit and no device limit when there is none.
\<close>

definition userOf :: "InboundInfo \<Rightarrow> string \<Rightarrow> UserInfo" where
  "userOf inboundInfo email =
     (case Load (UserInfo inboundInfo) email of
        Some v \<Rightarrow> v
      | None \<Rightarrow> \<lparr>UID = 0, SpeedLimit = 0, DeviceLimit = 0\<rparr>)"

text \<open>The block \<^verbatim>\<open>GlobalLimit\<close> of \<^verbatim>\<open>GetUserBucket\<close>: the ledger is asked only when
  the inbound has a configuration and the configuration is enabled.\<close>

definition globalStage ::
  "(string \<Rightarrow> Get_result) \<Rightarrow> InboundInfo \<Rightarrow> string \<Rightarrow> int \<Rightarrow> string \<Rightarrow> int \<Rightarrow> bool \<times> event list" where
  "globalStage cache inboundInfo email uid ip deviceLimit =
     (case GlobalLimit_config inboundInfo of
        Some config \<Rightarrow>
          if Enable config then globalLimit cache inboundInfo email uid ip deviceLimit
          else (False, [])
      | None \<Rightarrow> (False, []))"

text \<open>
  \<^verbatim>\<open>GetUserBucket\<close> returns the triple (limiter, SpeedLimit, Reject), the events of
  the call and the registry as the call leaves it; the inbound is changed through its
  pointer, so it stays under its tag.
\<close>

definition GetUserBucket ::
  "(int \<rightharpoonup> string list) \<Rightarrow> (string \<Rightarrow> Get_result) \<Rightarrow> Limiter \<Rightarrow> string \<Rightarrow> string \<Rightarrow> string \<Rightarrow> bool
     \<Rightarrow> (rate_Limiter option \<times> bool \<times> bool) \<times> event list \<times> Limiter" where
  "GetUserBucket UserAliveIPsMap cache l tag email ip isSourceTCP =
     (case Load (InboundInfo l) tag of
        Some inboundInfo \<Rightarrow>
          (let u = userOf inboundInfo email;
               nodeLimit = NodeSpeedLimit inboundInfo;
               loc = (if isSourceTCP
                      then localDeviceLimit UserAliveIPsMap inboundInfo email ip (UID u) (DeviceLimit u)
                      else (False, inboundInfo));
               inb = snd loc
           in if fst loc then
                ((None, False, True), [], l\<lparr>InboundInfo := Store (InboundInfo l) tag inb\<rparr>)
              else
                (let glob = globalStage cache inb email (UID u) ip (DeviceLimit u)
                 in if fst glob then
                      ((None, False, True), snd glob,
                       l\<lparr>InboundInfo := Store (InboundInfo l) tag inb\<rparr>)
                    else
                      (let limit = determineRate nodeLimit (SpeedLimit u)
                       in if limit > 0 then
                            (case LoadOrStore (BucketHub inb) email (NewLimiter limit (sint limit)) of
                               (bucket, _, hub) \<Rightarrow>
                                 ((Some bucket, True, False), snd glob,
                                  l\<lparr>InboundInfo :=
                                      Store (InboundInfo l) tag (inb\<lparr>BucketHub := hub\<rparr>)\<rparr>))
                          else
                            ((None, False, False),
                             snd glob @ [LogDebug ''Get Inbound Limiter information failed''],
                             l\<lparr>InboundInfo := Store (InboundInfo l) tag inb\<rparr>))))
      | None \<Rightarrow>
          ((None, False, False), [LogDebug ''Get Inbound Limiter information failed''], l))"

text \<open>The parts of what \<^verbatim>\<open>GetUserBucket\<close> returns: the flag Reject, the registry.\<close>

definition Reject :: "(rate_Limiter option \<times> bool \<times> bool) \<times> event list \<times> Limiter \<Rightarrow> bool" where
  "Reject r = snd (snd (fst r))"

definition registry :: "(rate_Limiter option \<times> bool \<times> bool) \<times> event list \<times> Limiter \<Rightarrow> Limiter" where
  "registry r = snd (snd r)"

text \<open>The OnlineIPSet of a user: the IPs bound to it, none when it has no entry.\<close>

definition onlineIPs :: "InboundInfo \<Rightarrow> string \<Rightarrow> (string, int) sync_Map" where
  "onlineIPs inboundInfo email =
     (case Load (UserOnlineIP inboundInfo) email of None \<Rightarrow> [] | Some ipMap \<Rightarrow> ipMap)"

text \<open>
  Every IP bound in an OnlineIPSet of the inbound has an entry in the allow-status
  cache.
\<close>

definition classified :: "InboundInfo \<Rightarrow> bool" where
  "classified inboundInfo \<longleftrightarrow>
     (\<forall>entry \<in> set (UserOnlineIP inboundInfo). \<forall>e \<in> set (snd entry).
        Load (ipAllowedMap inboundInfo) (fst e) \<noteq> None)"

subsection \<open>Example states\<close>

text \<open>
  An inbound \<open>n\<close> without a node cap and with three users: two with a speed limit
  and a bucket, the third without a speed limit; nobody is online. The concrete cases
  below start from it.
\<close>

definition demo_inbound :: InboundInfo where
  "demo_inbound =
     \<lparr>Tag = ''n'', NodeSpeedLimit = 0,
      UserInfo = [(''n|a|1'', \<lparr>UID = 1, SpeedLimit = 5, DeviceLimit = 2\<rparr>),
                  (''n|b|2'', \<lparr>UID = 2, SpeedLimit = 7, DeviceLimit = 3\<rparr>),
                  (''n|c|3'', \<lparr>UID = 3, SpeedLimit = 0, DeviceLimit = 2\<rparr>)],
      BucketHub = [(''n|a|1'', \<lparr>rate_limit = 5, rate_burst = 5\<rparr>),
                   (''n|b|2'', \<lparr>rate_limit = 7, rate_burst = 7\<rparr>)],
      UserOnlineIP = [], OnlineDevice = [], ipAllowedMap = [], Otraffic = [],
      GlobalLimit_config = None\<rparr>"

definition demo_limiter :: Limiter where
  "demo_limiter = \<lparr>InboundInfo = [(''n'', demo_inbound)]\<rparr>"

text \<open>
  The alive-IP table: user 1 has two pinned IPs, user 2 has one, user 3 has none.
\<close>

definition demo_alive :: "int \<rightharpoonup> string list" where
  "demo_alive = [1 \<mapsto> [''10.0.0.1'', ''10.0.0.2''], 2 \<mapsto> [''10.0.0.7'']]"

text \<open>
  The same inbound with global limiting enabled: entries of the ledger live 60 seconds,
  a lookup may take 5 seconds.
\<close>

definition demo_config :: GlobalDeviceLimitConfig where
  "demo_config =
     \<lparr>Enable = True, RedisNetwork = ''tcp'', RedisAddr = ''127.0.0.1:6379'', RedisUsername = [],
      RedisPassword = [], RedisDB = 0, Timeout = 5, Expiry = 60\<rparr>"

definition demo_global_inbound :: InboundInfo where
  "demo_global_inbound = demo_inbound\<lparr>GlobalLimit_config := Some demo_config\<rparr>"

definition demo_global_limiter :: Limiter where
  "demo_global_limiter = \<lparr>InboundInfo = [(''n'', demo_global_inbound)]\<rparr>"

text \<open>
  The inbound \<open>n\<close> where one user is online with the given IPs and the allow-status
  cache holds the given entries.
\<close>

definition demo_online :: "string \<Rightarrow> (string, int) sync_Map \<Rightarrow> (string, int) sync_Map \<Rightarrow> Limiter" where
  "demo_online email ips statuses =
     \<lparr>InboundInfo = [(''n'', demo_inbound\<lparr>UserOnlineIP := [(email, ips)], ipAllowedMap := statuses\<rparr>)]\<rparr>"

text \<open>
  The inbound \<open>n\<close> without buckets, in the middle of its cycles: the OnlineIPSets,
  the allow-status cache, the snapshot and the traffic of the previous cycle are given.
\<close>

definition demo_cycle ::
  "(string, (string, int) sync_Map) sync_Map \<Rightarrow> (string, int) sync_Map \<Rightarrow> (int, string) sync_Map
     \<Rightarrow> (int, int64) sync_Map \<Rightarrow> Limiter" where
  "demo_cycle users statuses devices traffic =
     \<lparr>InboundInfo = [(''n'', demo_inbound\<lparr>BucketHub := [], UserOnlineIP := users,
         OnlineDevice := devices, ipAllowedMap := statuses, Otraffic := traffic\<rparr>)]\<rparr>"

section \<open>Properties\<close>

subsection \<open>Concurrent maps\<close>

lemma Load_Store: "Load (Store m k v) k' = (if k' = k then Some v else Load m k')"
  by (simp add: Load_def Store_def update_conv')


lemma Store_same: "Load m k = Some v \<Longrightarrow> Store m k v = m"
  by (simp add: Load_def Store_def update_triv)

lemma Store_new: "Load m k = None \<Longrightarrow> Store m k v = m @ [(k, v)]"
  by (induction m) (auto simp: Load_def Store_def)

lemma Delete_Store_new: "Load m k = None \<Longrightarrow> Delete (Store m k v) k = m"
  by (simp add: Load_def Delete_def Store_def delete_update_same map_of_eq_None_iff)


lemma Load_Nil: "Load [] k = None"
  by (simp add: Load_def)


subsection \<open>The effective rate\<close>

text \<open>
  C2. \<^verbatim>\<open>determineRate(nodeLimit, userLimit)\<close>, for all inputs (a \<^verbatim>\<open>uint64\<close> is never
  negative): the result is 0 if and only if both inputs are 0; if exactly one input is 0
  the result is the other one; if both are non-zero the result is the smaller of the
  two. In particular determineRate(0,100)=100, determineRate(50,0)=50,
  determineRate(30,80)=30 and determineRate(0,0)=0.
\<close>

theorem determineRate_spec:
  "(determineRate a b = 0 \<longleftrightarrow> a = 0 \<and> b = 0)
   \<and> (a = 0 \<and> b \<noteq> 0 \<longrightarrow> determineRate a b = b)
   \<and> (a \<noteq> 0 \<and> b = 0 \<longrightarrow> determineRate a b = a)
   \<and> (a \<noteq> 0 \<and> b \<noteq> 0 \<longrightarrow> determineRate a b = min a b)
   \<and> determineRate 0 100 = 100 \<and> determineRate 50 0 = 50
   \<and> determineRate 30 80 = 30 \<and> determineRate 0 0 = 0"
  by (auto simp: determineRate_def min_def word_gt_0 not_less)

theorem determineRate_spec_witness:
  "determineRate 0 7 = 7 \<and> determineRate 7 0 = 7 \<and> determineRate 9 4 = 4
   \<and> determineRate 4 9 = min 4 9 \<and> determineRate 0 0 = 0"
  using determineRate_spec [of 0 7] determineRate_spec [of 7 0]
    determineRate_spec [of 9 4] determineRate_spec [of 4 9]
  by simp

subsection \<open>Updating an inbound\<close>













subsection \<open>Operations on a tag without an inbound\<close>

text \<open>
  C9, as amended. Called with a tag that has no registered inbound,
  \<^verbatim>\<open>UpdateInboundLimiter\<close> and \<^verbatim>\<open>GetOnlineDevice\<close> return the error
  \<^verbatim>\<open>no such inbound in limiter: tag\<close> as an explicit result and change nothing.
  \<^verbatim>\<open>GetUserBucket\<close> has no error result: on such a tag it returns no limiter, not
  limited and not rejected, writes one line to the debug log and leaves the registry as
  it is.
\<close>

theorem unknown_inbound:
  assumes "Load (InboundInfo l) tag = None"
  shows "UpdateInboundLimiter l tag users = Inl (Errorf (''no such inbound in limiter: '' @ tag))
    \<and> GetOnlineDevice l tag userTraffic T = Inl (Errorf (''no such inbound in limiter: '' @ tag))
    \<and> GetUserBucket alive cache l tag email ip isSourceTCP =
        ((None, False, False), [LogDebug ''Get Inbound Limiter information failed''], l)"
  using assms by (simp add: UpdateInboundLimiter_def GetOnlineDevice_def GetUserBucket_def)

theorem unknown_inbound_witness:
  "UpdateInboundLimiter demo_limiter ''ghost'' [] = Inl (Errorf ''no such inbound in limiter: ghost'')
    \<and> GetOnlineDevice demo_limiter ''ghost'' Map.empty 0 = Inl (Errorf ''no such inbound in limiter: ghost'')
    \<and> GetUserBucket demo_alive (\<lambda>k. NotFound) demo_limiter ''ghost'' ''n|a|1'' ''10.0.0.9'' True =
        ((None, False, False), [LogDebug ''Get Inbound Limiter information failed''], demo_limiter)"
proof -
  have "Load (InboundInfo demo_limiter) ''ghost'' = None"
    by (simp add: demo_limiter_def Load_def)
  from unknown_inbound [OF this] show ?thesis by simp
qed

text \<open>
  C9 as stated fails: on the unknown tag \<open>ghost\<close> \<^verbatim>\<open>GetUserBucket\<close> answers exactly
  what it answers for user 3, who has no speed limit, on the registered inbound (the
  same triple, the same log line, the same registry), and \<^verbatim>\<open>ResetOtraffic\<close> reports
  no error.
\<close>

theorem unknown_inbound_counterexample:
  "GetUserBucket demo_alive (\<lambda>k. NotFound) demo_limiter ''ghost'' ''n|c|3'' ''10.0.0.9'' False
     = GetUserBucket demo_alive (\<lambda>k. NotFound) demo_limiter ''n'' ''n|c|3'' ''10.0.0.9'' False
   \<and> fst (GetUserBucket demo_alive (\<lambda>k. NotFound) demo_limiter ''ghost'' ''n|c|3'' ''10.0.0.9'' False)
     = (None, False, False)
   \<and> ResetOtraffic demo_limiter ''ghost'' = Inr demo_limiter"
  by (simp add: GetUserBucket_def ResetOtraffic_def demo_limiter_def demo_inbound_def Load_def
      Store_def userOf_def globalStage_def determineRate_def)

subsection \<open>The local device tracker: classification and early rejection\<close>

lemma aliveLoop_eq: "aliveLoop ip xs = (if ip \<in> set xs then 1 else 2)"
  by (induction xs) auto

lemma ipAllowed_eq:
  "ipAllowed ip aliveIPs = (if aliveIPs = [] then 0 else if ip \<in> set aliveIPs then 1 else 2)"
  by (simp add: ipAllowed_def aliveLoop_eq)

text \<open>
  C8, as amended. A connection-oriented attempt on an existing inbound whose IP is
  classified unpinned (2), for a user whose device limit is positive and at most the
  size of its allow-list, is rejected at once: no limiter, no event, and the inbound is
  as before but for the allow-status cache, which now holds the classification 2 of
  this IP. The OnlineIPSet, the bucket table, the online snapshot and the traffic
  accumulator are untouched; when the cache held this classification already, nothing
  at all has changed.
\<close>

theorem early_reject:
  assumes "Load (InboundInfo l) tag = Some inb"
    and "ipAllowed ip (GetUserAliveIPs alive (UID (userOf inb email))) = 2"
    and "0 < DeviceLimit (userOf inb email)"
    and "DeviceLimit (userOf inb email) \<le> int (length (GetUserAliveIPs alive (UID (userOf inb email))))"
  shows "GetUserBucket alive cache l tag email ip True =
           ((None, False, True), [],
            l\<lparr>InboundInfo := Store (InboundInfo l) tag
                 (inb\<lparr>ipAllowedMap := Store (ipAllowedMap inb) ip 2\<rparr>)\<rparr>)
         \<and> (Load (ipAllowedMap inb) ip = Some 2 \<longrightarrow>
              GetUserBucket alive cache l tag email ip True = ((None, False, True), [], l))"
proof -
  have loc: "localDeviceLimit alive inb email ip (UID (userOf inb email)) (DeviceLimit (userOf inb email))
      = (True, inb\<lparr>ipAllowedMap := Store (ipAllowedMap inb) ip 2\<rparr>)"
    using assms(2-4) by (simp add: localDeviceLimit_def Let_def)
  have run: "GetUserBucket alive cache l tag email ip True =
           ((None, False, True), [],
            l\<lparr>InboundInfo := Store (InboundInfo l) tag
                 (inb\<lparr>ipAllowedMap := Store (ipAllowedMap inb) ip 2\<rparr>)\<rparr>)"
    using assms(1) by (simp add: GetUserBucket_def Let_def loc)
  have same: "Load (ipAllowedMap inb) ip = Some 2 \<Longrightarrow>
      l\<lparr>InboundInfo := Store (InboundInfo l) tag
                 (inb\<lparr>ipAllowedMap := Store (ipAllowedMap inb) ip 2\<rparr>)\<rparr> = l"
    using assms(1) by (simp add: Store_same)
  from run same show ?thesis by simp
qed

theorem early_reject_witness:
  "GetUserBucket demo_alive (\<lambda>k. NotFound) demo_limiter ''n'' ''n|a|1'' ''10.0.0.9'' True =
     ((None, False, True), [],
      \<lparr>InboundInfo = [(''n'', demo_inbound\<lparr>ipAllowedMap := [(''10.0.0.9'', 2)]\<rparr>)]\<rparr>)"
proof -
  have a: "Load (InboundInfo demo_limiter) ''n'' = Some demo_inbound"
    by (simp add: demo_limiter_def Load_def)
  have u: "userOf demo_inbound ''n|a|1'' = \<lparr>UID = 1, SpeedLimit = 5, DeviceLimit = 2\<rparr>"
    by (simp add: userOf_def demo_inbound_def Load_def)
  have b: "ipAllowed ''10.0.0.9'' (GetUserAliveIPs demo_alive (UID (userOf demo_inbound ''n|a|1''))) = 2"
    by (simp add: u GetUserAliveIPs_def demo_alive_def ipAllowed_def)
  have c: "0 < DeviceLimit (userOf demo_inbound ''n|a|1'')"
    by (simp add: u)
  have d: "DeviceLimit (userOf demo_inbound ''n|a|1'')
      \<le> int (length (GetUserAliveIPs demo_alive (UID (userOf demo_inbound ''n|a|1''))))"
    by (simp add: u GetUserAliveIPs_def demo_alive_def)
  from early_reject [OF a b c d, of "\<lambda>k. NotFound"] show ?thesis
    by (simp add: demo_limiter_def Store_def demo_inbound_def)
qed

text \<open>
  C8 as stated fails: the allow-status cache is empty before the rejected call and
  holds the entry of the IP after it.
\<close>

theorem early_reject_counterexample:
  "snd (snd (GetUserBucket demo_alive (\<lambda>k. NotFound) demo_limiter ''n'' ''n|a|1'' ''10.0.0.9'' True))
     = \<lparr>InboundInfo = [(''n'', demo_inbound\<lparr>ipAllowedMap := [(''10.0.0.9'', 2)]\<rparr>)]\<rparr>
   \<and> ipAllowedMap demo_inbound = []
   \<and> snd (snd (GetUserBucket demo_alive (\<lambda>k. NotFound) demo_limiter ''n'' ''n|a|1'' ''10.0.0.9'' True))
     \<noteq> demo_limiter"
  by (simp add: GetUserBucket_def localDeviceLimit_def Let_def userOf_def demo_limiter_def
      demo_inbound_def demo_alive_def GetUserAliveIPs_def ipAllowed_def Load_def Store_def)

subsection \<open>The global device ledger\<close>

text \<open>
  C4. When the lookup of the ledger does not answer with a decoded entry,
  \<^verbatim>\<open>globalLimit\<close> does not reject. On a miss (\<^verbatim>\<open>store.NotFound\<close>) it starts one
  goroutine \<^verbatim>\<open>pushIP\<close> that writes the entry {ip: uid} under the key of the user, and
  that write, when it succeeds, carries the configured expiry as its TTL; when it
  fails, the failure is logged and nothing else happens in the limiter (what the failed
  write leaves in the tiers of the cache is not stated). On any other error (a deadline that passed, an unreachable
  tier, an entry that cannot be decoded) the error is logged and nothing is written.
  In both cases \<^verbatim>\<open>GetUserBucket\<close> rejects the connection only if the local device
  tracker does.
\<close>

theorem globalLimit_fail_open:
  "(cache (strings_Replace_1 email (Tag inb) (Itoa deviceLimit)) = NotFound \<longrightarrow>
      globalLimit cache inb email uid ip deviceLimit =
        (False, [Go_pushIP (strings_Replace_1 email (Tag inb) (Itoa deviceLimit)) [ip \<mapsto> uid]]))
   \<and> (cache (strings_Replace_1 email (Tag inb) (Itoa deviceLimit)) = Failed err \<longrightarrow>
      globalLimit cache inb email uid ip deviceLimit = (False, [LogErrorInner err]))
   \<and> ((\<forall>m. cache (strings_Replace_1 email (Tag inb) (Itoa deviceLimit)) \<noteq> Found m) \<longrightarrow>
      \<not> fst (globalStage cache inb email uid ip deviceLimit))
   \<and> (GlobalLimit_config inb = Some config \<longrightarrow>
      pushIP store None inb key m = Some (store(key \<mapsto> (m, Expiry config)), [])
      \<and> map_option snd (pushIP store (Some (err, left)) inb key m) = Some [LogErrorInner err])
   \<and> (Load (InboundInfo l) tag = Some inb
        \<and> (\<forall>m. cache (strings_Replace_1 email (Tag inb) (Itoa (DeviceLimit (userOf inb email))))
                 \<noteq> Found m) \<longrightarrow>
      snd (snd (fst (GetUserBucket alive cache l tag email ip isSourceTCP))) =
        (isSourceTCP \<and> fst (localDeviceLimit alive inb email ip
                               (UID (userOf inb email)) (DeviceLimit (userOf inb email)))))"
proof -
  have stage: "\<not> fst (globalStage cache' inb' email uid' ip dl)"
    if "\<forall>m. cache' (strings_Replace_1 email (Tag inb') (Itoa dl)) \<noteq> Found m"
    for cache' inb' uid' dl
    using that
    by (cases "cache' (strings_Replace_1 email (Tag inb') (Itoa dl))")
       (simp_all add: globalStage_def globalLimit_def Let_def split: option.split)
  have tagloc: "Tag (snd (localDeviceLimit alive inb email ip u d)) = Tag inb" for u d
    by (simp add: localDeviceLimit_def Let_def LoadOrStore_def split: option.split)
  have bucket: "snd (snd (fst (GetUserBucket alive cache l tag email ip isSourceTCP))) =
        (isSourceTCP \<and> fst (localDeviceLimit alive inb email ip
                               (UID (userOf inb email)) (DeviceLimit (userOf inb email))))"
    if reg: "Load (InboundInfo l) tag = Some inb"
      and miss: "\<forall>m. cache (strings_Replace_1 email (Tag inb) (Itoa (DeviceLimit (userOf inb email))))
                 \<noteq> Found m"
  proof -
    have g1: "\<not> fst (globalStage cache inb email (UID (userOf inb email)) ip (DeviceLimit (userOf inb email)))"
      using miss by (rule stage)
    have g2: "\<not> fst (globalStage cache
        (snd (localDeviceLimit alive inb email ip (UID (userOf inb email)) (DeviceLimit (userOf inb email))))
        email (UID (userOf inb email)) ip (DeviceLimit (userOf inb email)))"
      using miss by (intro stage) (simp add: tagloc)
    show ?thesis
      using reg g1 g2 by (simp add: GetUserBucket_def Let_def split: prod.split)
  qed
  show ?thesis
    using stage [of cache inb deviceLimit uid] bucket
    by (simp add: globalLimit_def pushIP_def Let_def)
qed

theorem globalLimit_fail_open_witness:
  "globalLimit (\<lambda>k. NotFound) demo_global_inbound ''n|c|3'' 3 ''10.0.0.9'' 2
     = (False, [Go_pushIP ''2|c|3'' [''10.0.0.9'' \<mapsto> 3]])
   \<and> globalLimit (\<lambda>k. Failed DeadlineExceeded) demo_global_inbound ''n|c|3'' 3 ''10.0.0.9'' 2
     = (False, [LogErrorInner DeadlineExceeded])
   \<and> pushIP Map.empty None demo_global_inbound ''2|c|3'' [''10.0.0.9'' \<mapsto> 3]
     = Some ([''2|c|3'' \<mapsto> ([''10.0.0.9'' \<mapsto> 3], 60)], [])
   \<and> map_option snd
        (pushIP Map.empty (Some (Unreachable, [''2|c|3'' \<mapsto> ([''10.0.0.9'' \<mapsto> 3], 60)]))
           demo_global_inbound ''2|c|3'' [''10.0.0.9'' \<mapsto> 3])
     = Some [LogErrorInner Unreachable]
   \<and> snd (snd (fst (GetUserBucket demo_alive (\<lambda>k. Failed DeadlineExceeded) demo_global_limiter
                       ''n'' ''n|c|3'' ''10.0.0.9'' True))) = False"
proof -
  have cfg: "GlobalLimit_config demo_global_inbound = Some demo_config"
    by (simp add: demo_global_inbound_def)
  have tag: "Tag demo_global_inbound = ''n''"
    by (simp add: demo_global_inbound_def demo_inbound_def)
  have u: "userOf demo_global_inbound ''n|c|3'' = \<lparr>UID = 3, SpeedLimit = 0, DeviceLimit = 2\<rparr>"
    by (simp add: userOf_def demo_global_inbound_def demo_inbound_def Load_def)
  have reg: "Load (InboundInfo demo_global_limiter) ''n'' = Some demo_global_inbound"
    by (simp add: demo_global_limiter_def Load_def)
  have loc: "\<not> fst (localDeviceLimit demo_alive demo_global_inbound ''n|c|3'' ''10.0.0.9'' 3 2)"
    by (simp add: localDeviceLimit_def Let_def demo_global_inbound_def demo_inbound_def
        demo_alive_def GetUserAliveIPs_def ipAllowed_def LoadOrStore_def Load_def Store_def)
  have ex: "Expiry demo_config = 60" by (simp add: demo_config_def)
  have i2: "Itoa 2 = ''2''" by (simp add: Itoa_def natToString.simps)
  show ?thesis
    using globalLimit_fail_open [where cache = "\<lambda>k. NotFound" and email = "''n|c|3''"
        and inb = demo_global_inbound and deviceLimit = 2 and uid = 3 and ip = "''10.0.0.9''"
        and config = demo_config and store = Map.empty and key = "''2|c|3''"
        and m = "[''10.0.0.9'' \<mapsto> 3]"]
      globalLimit_fail_open [where cache = "\<lambda>k. Failed DeadlineExceeded" and email = "''n|c|3''"
        and inb = demo_global_inbound and deviceLimit = 2 and uid = 3 and ip = "''10.0.0.9''"
        and err = DeadlineExceeded and l = demo_global_limiter and tag = "''n''"
        and alive = demo_alive and isSourceTCP = True]
    by (simp add: i2 cfg tag u reg loc ex)
qed

text \<open>
  C5, as amended. When the lookup answers with a cached IP-to-UID map, the connection is
  rejected if and only if the device limit is positive and the number of entries of the
  map exceeds it, and then nothing is written. Otherwise, when the incoming IP is not
  in the map, one goroutine \<^verbatim>\<open>pushIP\<close> is started with the map extended by
  {ip: uid}, whose write stores that map under the key with the configured expiry;
  when the IP is in the map already, nothing is written.
\<close>

theorem globalLimit_hit:
  assumes "cache (strings_Replace_1 email (Tag inb) (Itoa deviceLimit)) = Found m"
  shows "(fst (globalLimit cache inb email uid ip deviceLimit) \<longleftrightarrow> 0 < deviceLimit \<and> deviceLimit < len m)
    \<and> snd (globalLimit cache inb email uid ip deviceLimit) =
        (if (0 < deviceLimit \<and> deviceLimit < len m) \<or> m ip \<noteq> None then []
         else [Go_pushIP (strings_Replace_1 email (Tag inb) (Itoa deviceLimit)) (m(ip \<mapsto> uid))])
    \<and> (GlobalLimit_config inb = Some config \<longrightarrow>
         pushIP store None inb key (m(ip \<mapsto> uid))
           = Some (store(key \<mapsto> (m(ip \<mapsto> uid), Expiry config)), []))"
  using assms by (auto simp: globalLimit_def Let_def pushIP_def)

theorem globalLimit_hit_witness:
  "fst (globalLimit (\<lambda>k. Found [''10.0.0.1'' \<mapsto> 3, ''10.0.0.2'' \<mapsto> 3, ''10.0.0.3'' \<mapsto> 3])
         demo_global_inbound ''n|c|3'' 3 ''10.0.0.9'' 2)
   \<and> snd (globalLimit (\<lambda>k. Found [''10.0.0.1'' \<mapsto> 3])
         demo_global_inbound ''n|c|3'' 3 ''10.0.0.9'' 2)
       = [Go_pushIP ''2|c|3'' [''10.0.0.1'' \<mapsto> 3, ''10.0.0.9'' \<mapsto> 3]]
   \<and> pushIP Map.empty None demo_global_inbound ''2|c|3'' [''10.0.0.1'' \<mapsto> 3, ''10.0.0.9'' \<mapsto> 3]
       = Some ([''2|c|3'' \<mapsto> ([''10.0.0.1'' \<mapsto> 3, ''10.0.0.9'' \<mapsto> 3], 60)], [])"
proof -
  have i2: "Itoa 2 = ''2''" by (simp add: Itoa_def natToString.simps)
  have tag: "Tag demo_global_inbound = ''n''"
    by (simp add: demo_global_inbound_def demo_inbound_def)
  have cfg: "GlobalLimit_config demo_global_inbound = Some demo_config"
    by (simp add: demo_global_inbound_def)
  have ex: "Expiry demo_config = 60" by (simp add: demo_config_def)
  have l3: "len [''10.0.0.1'' \<mapsto> 3::int, ''10.0.0.2'' \<mapsto> 3, ''10.0.0.3'' \<mapsto> 3] = 3"
    by (simp add: len_def)
  have l1: "len [''10.0.0.1'' \<mapsto> 3::int] = 1"
    by (simp add: len_def)
  show ?thesis
    using globalLimit_hit [where cache = "\<lambda>k. Found [''10.0.0.1'' \<mapsto> 3, ''10.0.0.2'' \<mapsto> 3, ''10.0.0.3'' \<mapsto> 3]"
        and email = "''n|c|3''" and inb = demo_global_inbound and deviceLimit = 2 and uid = 3
        and ip = "''10.0.0.9''", OF refl]
      globalLimit_hit [where cache = "\<lambda>k. Found [''10.0.0.1'' \<mapsto> 3]"
        and email = "''n|c|3''" and inb = demo_global_inbound and deviceLimit = 2 and uid = 3
        and ip = "''10.0.0.9''" and config = demo_config and store = Map.empty
        and key = "''2|c|3''", OF refl]
    by (simp add: i2 tag cfg ex l3 l1)
qed

text \<open>
  C5 as stated fails for a negative device limit: the limit \<open>-1\<close> is non-zero and
  the one entry of the map exceeds it, yet the guard \<^verbatim>\<open>deviceLimit > 0\<close> lets the
  connection pass.
\<close>

theorem globalLimit_hit_counterexample:
  "\<not> fst (globalLimit (\<lambda>k. Found [''10.0.0.1'' \<mapsto> 3]) demo_global_inbound ''n|c|3'' 3 ''10.0.0.9'' (- 1))
   \<and> (- 1 :: int) \<noteq> 0
   \<and> len [''10.0.0.1'' \<mapsto> 3::int] > - 1"
  by (simp add: globalLimit_def Let_def len_def)

subsection \<open>The local device tracker: the device count\<close>

lemma Delete_snoc_new: "Load m k = None \<Longrightarrow> Delete (m @ [(k, v)]) k = m"
  using Delete_Store_new [of m k v] by (simp add: Store_new)

lemma localDeviceLimit_new:
  assumes "Load (onlineIPs inb email) ip = None"
  shows "localDeviceLimit alive inb email ip uid dl =
     (if ipAllowed ip (GetUserAliveIPs alive uid) \<noteq> 1 \<and> 0 < dl
         \<and> dl < int (length (onlineIPs inb email)) + 1 + int (length (GetUserAliveIPs alive uid))
      then (True, inb\<lparr>ipAllowedMap := Store (ipAllowedMap inb) ip (ipAllowed ip (GetUserAliveIPs alive uid))\<rparr>)
      else (False, inb\<lparr>ipAllowedMap := Store (ipAllowedMap inb) ip (ipAllowed ip (GetUserAliveIPs alive uid)),
                        UserOnlineIP := Store (UserOnlineIP inb) email (onlineIPs inb email @ [(ip, uid)])\<rparr>))"
proof (cases "Load (UserOnlineIP inb) email")
  case None
  then show ?thesis
    by (auto simp: localDeviceLimit_def Let_def LoadOrStore_def onlineIPs_def ipAllowed_eq Store_def)
next
  case (Some m)
  then have new: "Load m ip = None" using assms by (simp add: onlineIPs_def)
  show ?thesis
    using Some new
    by (auto simp: localDeviceLimit_def Let_def LoadOrStore_def onlineIPs_def ipAllowed_eq
        Store_new Delete_snoc_new Store_same)
qed

lemma localDeviceLimit_member:
  assumes "Load (onlineIPs inb email) ip = Some v"
  shows "localDeviceLimit alive inb email ip uid dl =
     (ipAllowed ip (GetUserAliveIPs alive uid) = 2 \<and> 0 < dl
         \<and> dl \<le> int (length (GetUserAliveIPs alive uid)),
      inb\<lparr>ipAllowedMap := Store (ipAllowedMap inb) ip (ipAllowed ip (GetUserAliveIPs alive uid))\<rparr>)"
proof (cases "Load (UserOnlineIP inb) email")
  case None
  then show ?thesis using assms by (simp add: onlineIPs_def Load_Nil)
next
  case (Some m)
  then have "Load m ip = Some v" using assms by (simp add: onlineIPs_def)
  then show ?thesis
    using Some by (auto simp: localDeviceLimit_def Let_def LoadOrStore_def)
qed

lemma globalStage_cong:
  "Tag a = Tag b \<Longrightarrow> GlobalLimit_config a = GlobalLimit_config b \<Longrightarrow>
     globalStage cache a email uid ip dl = globalStage cache b email uid ip dl"
  by (simp add: globalStage_def globalLimit_def split: option.split)

lemma localDeviceLimit_frame:
  "Tag (snd (localDeviceLimit alive inb email ip uid dl)) = Tag inb"
  "GlobalLimit_config (snd (localDeviceLimit alive inb email ip uid dl)) = GlobalLimit_config inb"
  "UserInfo (snd (localDeviceLimit alive inb email ip uid dl)) = UserInfo inb"
  "NodeSpeedLimit (snd (localDeviceLimit alive inb email ip uid dl)) = NodeSpeedLimit inb"
  by (simp_all add: localDeviceLimit_def Let_def LoadOrStore_def split: option.split)

text \<open>
  What a connection-oriented call of \<^verbatim>\<open>GetUserBucket\<close> on an existing inbound returns and
  leaves behind, in terms of its local block and its global block.
\<close>

lemma GetUserBucket_tcp:
  assumes "Load (InboundInfo l) tag = Some inb"
  shows "\<exists>inb'. Load (InboundInfo (registry (GetUserBucket alive cache l tag email ip True))) tag = Some inb'
     \<and> UserOnlineIP inb' = UserOnlineIP (snd (localDeviceLimit alive inb email ip (UID (userOf inb email)) (DeviceLimit (userOf inb email))))
     \<and> ipAllowedMap inb' = ipAllowedMap (snd (localDeviceLimit alive inb email ip (UID (userOf inb email)) (DeviceLimit (userOf inb email))))
     \<and> UserInfo inb' = UserInfo inb \<and> Tag inb' = Tag inb \<and> GlobalLimit_config inb' = GlobalLimit_config inb
     \<and> NodeSpeedLimit inb' = NodeSpeedLimit inb
     \<and> (Reject (GetUserBucket alive cache l tag email ip True) \<longleftrightarrow>
          fst (localDeviceLimit alive inb email ip (UID (userOf inb email)) (DeviceLimit (userOf inb email)))
          \<or> fst (globalStage cache inb email (UID (userOf inb email)) ip (DeviceLimit (userOf inb email))))"
proof -
  let ?loc = "localDeviceLimit alive inb email ip (UID (userOf inb email)) (DeviceLimit (userOf inb email))"
  have g: "globalStage cache (snd ?loc) email (UID (userOf inb email)) ip (DeviceLimit (userOf inb email))
      = globalStage cache inb email (UID (userOf inb email)) ip (DeviceLimit (userOf inb email))"
    by (rule globalStage_cong) (simp_all add: localDeviceLimit_frame)
  show ?thesis
    using assms
    by (simp add: GetUserBucket_def Let_def g Reject_def registry_def Load_Store
        localDeviceLimit_frame split: prod.split)
qed

lemma globalStage_disabled:
  "(\<forall>config. GlobalLimit_config inb = Some config \<longrightarrow> \<not> Enable config) \<Longrightarrow>
     \<not> fst (globalStage cache inb email uid ip dl)"
  by (simp add: globalStage_def split: option.split)

lemma onlineIPs_Store:
  "UserOnlineIP inb' = Store (UserOnlineIP inb) email m \<Longrightarrow> onlineIPs inb' email = m"
  by (simp add: onlineIPs_def Load_Store)

lemmas demo_eval =
  GetUserBucket_def localDeviceLimit_def Let_def userOf_def globalStage_def globalLimit_def
  demo_limiter_def demo_inbound_def demo_alive_def demo_online_def demo_global_limiter_def
  demo_global_inbound_def demo_config_def
  GetUserAliveIPs_def ipAllowed_def LoadOrStore_def Load_def Store_def Delete_def
  determineRate_def Reject_def registry_def onlineIPs_def NewLimiter_def len_def
  Itoa_def natToString.simps

text \<open>
  C1, as amended. A connection-oriented attempt on an existing inbound always leaves the
  inbound registered. When the IP is new to the OnlineIPSet of the user, the size of
  the set after registration plus the size of the allow-list is counted: if the
  classification is not pinned, the device limit is positive and the count exceeds the
  limit, the call returns rejected and the OnlineIPSet is as before the call; otherwise
  the IP is registered at the end of the set and the local tracker accepts, so that the
  call is rejected exactly when the global ledger rejects it. When the IP is a member
  of the set already, the set is unchanged, nothing is counted, and the call is rejected
  only by the early test of the allow-list or by the global ledger. An inbound without
  an enabled global configuration has no rejecting global ledger.
\<close>

theorem local_device_limit:
  assumes reg: "Load (InboundInfo l) tag = Some inb"
    and u: "u = userOf inb email"
    and a: "aliveIPs = GetUserAliveIPs alive (UID u)"
    and r: "R = GetUserBucket alive cache l tag email ip True"
  shows "\<exists>inb'. Load (InboundInfo (registry R)) tag = Some inb'
     \<and> (Load (onlineIPs inb email) ip = None \<longrightarrow>
          (if ipAllowed ip aliveIPs \<noteq> 1 \<and> 0 < DeviceLimit u
                \<and> DeviceLimit u < int (length (onlineIPs inb email)) + 1 + int (length aliveIPs)
           then Reject R \<and> UserOnlineIP inb' = UserOnlineIP inb
           else onlineIPs inb' email = onlineIPs inb email @ [(ip, UID u)]
                \<and> (Reject R \<longleftrightarrow> fst (globalStage cache inb email (UID u) ip (DeviceLimit u)))))
     \<and> (Load (onlineIPs inb email) ip \<noteq> None \<longrightarrow>
          UserOnlineIP inb' = UserOnlineIP inb
          \<and> (Reject R \<longleftrightarrow>
                (ipAllowed ip aliveIPs = 2 \<and> 0 < DeviceLimit u \<and> DeviceLimit u \<le> int (length aliveIPs))
                \<or> fst (globalStage cache inb email (UID u) ip (DeviceLimit u))))
     \<and> ((\<forall>config. GlobalLimit_config inb = Some config \<longrightarrow> \<not> Enable config) \<longrightarrow>
          \<not> fst (globalStage cache inb email (UID u) ip (DeviceLimit u)))"
proof -
  from GetUserBucket_tcp [OF reg, of alive cache email ip, folded u r]
  obtain inb' where
    here: "Load (InboundInfo (registry R)) tag = Some inb'"
    and users: "UserOnlineIP inb' = UserOnlineIP (snd (localDeviceLimit alive inb email ip (UID u) (DeviceLimit u)))"
    and rej: "Reject R \<longleftrightarrow> fst (localDeviceLimit alive inb email ip (UID u) (DeviceLimit u))
          \<or> fst (globalStage cache inb email (UID u) ip (DeviceLimit u))"
    by (elim exE conjE) (rule that, assumption+)
  have new: "Load (onlineIPs inb email) ip = None \<longrightarrow>
          (if ipAllowed ip aliveIPs \<noteq> 1 \<and> 0 < DeviceLimit u
                \<and> DeviceLimit u < int (length (onlineIPs inb email)) + 1 + int (length aliveIPs)
           then Reject R \<and> UserOnlineIP inb' = UserOnlineIP inb
           else onlineIPs inb' email = onlineIPs inb email @ [(ip, UID u)]
                \<and> (Reject R \<longleftrightarrow> fst (globalStage cache inb email (UID u) ip (DeviceLimit u))))"
  proof (intro impI)
    assume n: "Load (onlineIPs inb email) ip = None"
    show "if ipAllowed ip aliveIPs \<noteq> 1 \<and> 0 < DeviceLimit u
                \<and> DeviceLimit u < int (length (onlineIPs inb email)) + 1 + int (length aliveIPs)
           then Reject R \<and> UserOnlineIP inb' = UserOnlineIP inb
           else onlineIPs inb' email = onlineIPs inb email @ [(ip, UID u)]
                \<and> (Reject R \<longleftrightarrow> fst (globalStage cache inb email (UID u) ip (DeviceLimit u)))"
    proof (cases "ipAllowed ip aliveIPs \<noteq> 1 \<and> 0 < DeviceLimit u
                \<and> DeviceLimit u < int (length (onlineIPs inb email)) + 1 + int (length aliveIPs)")
      case True
      then show ?thesis
        using users rej by (simp add: localDeviceLimit_new [OF n] a)
    next
      case False
      then have loc: "localDeviceLimit alive inb email ip (UID u) (DeviceLimit u) =
          (False, inb\<lparr>ipAllowedMap := Store (ipAllowedMap inb) ip (ipAllowed ip aliveIPs),
                        UserOnlineIP := Store (UserOnlineIP inb) email (onlineIPs inb email @ [(ip, UID u)])\<rparr>)"
        by (simp add: localDeviceLimit_new [OF n] a)
      have reg': "onlineIPs inb' email = onlineIPs inb email @ [(ip, UID u)]"
        using users by (simp add: loc onlineIPs_Store)
      have rg: "Reject R \<longleftrightarrow> fst (globalStage cache inb email (UID u) ip (DeviceLimit u))"
        using rej by (simp add: loc)
      show ?thesis
        unfolding if_not_P [OF False] using reg' rg by (rule conjI)
    qed
  qed
  have member: "Load (onlineIPs inb email) ip \<noteq> None \<longrightarrow>
          UserOnlineIP inb' = UserOnlineIP inb
          \<and> (Reject R \<longleftrightarrow>
                (ipAllowed ip aliveIPs = 2 \<and> 0 < DeviceLimit u \<and> DeviceLimit u \<le> int (length aliveIPs))
                \<or> fst (globalStage cache inb email (UID u) ip (DeviceLimit u)))"
  proof (intro impI)
    assume "Load (onlineIPs inb email) ip \<noteq> None"
    then obtain v where m: "Load (onlineIPs inb email) ip = Some v" by blast
    show "UserOnlineIP inb' = UserOnlineIP inb
          \<and> (Reject R \<longleftrightarrow>
                (ipAllowed ip aliveIPs = 2 \<and> 0 < DeviceLimit u \<and> DeviceLimit u \<le> int (length aliveIPs))
                \<or> fst (globalStage cache inb email (UID u) ip (DeviceLimit u)))"
      using users rej by (simp add: localDeviceLimit_member [OF m] a)
  qed
  show ?thesis
    using here new member globalStage_disabled [of inb cache email "UID u" ip "DeviceLimit u"]
    by (intro exI [of _ inb'] conjI) blast+
qed

text \<open>
  The concrete case of C1, on the inbound without global limiting: user 3 has device
  limit 2 and an empty allow-list; 10.0.0.1 and then 10.0.0.2 are admitted, 10.0.0.3 is
  rejected and not registered, and 10.0.0.1 is admitted again with the set unchanged.
\<close>

theorem local_device_limit_witness:
  "GetUserBucket demo_alive (\<lambda>k. NotFound) demo_limiter ''n'' ''n|c|3'' ''10.0.0.1'' True
     = ((None, False, False), [LogDebug ''Get Inbound Limiter information failed''],
        demo_online ''n|c|3'' [(''10.0.0.1'', 3)] [(''10.0.0.1'', 0)])
   \<and> GetUserBucket demo_alive (\<lambda>k. NotFound)
        (demo_online ''n|c|3'' [(''10.0.0.1'', 3)] [(''10.0.0.1'', 0)]) ''n'' ''n|c|3'' ''10.0.0.2'' True
     = ((None, False, False), [LogDebug ''Get Inbound Limiter information failed''],
        demo_online ''n|c|3'' [(''10.0.0.1'', 3), (''10.0.0.2'', 3)] [(''10.0.0.1'', 0), (''10.0.0.2'', 0)])
   \<and> Reject (GetUserBucket demo_alive (\<lambda>k. NotFound)
        (demo_online ''n|c|3'' [(''10.0.0.1'', 3), (''10.0.0.2'', 3)] [(''10.0.0.1'', 0), (''10.0.0.2'', 0)])
        ''n'' ''n|c|3'' ''10.0.0.3'' True)
   \<and> registry (GetUserBucket demo_alive (\<lambda>k. NotFound)
        (demo_online ''n|c|3'' [(''10.0.0.1'', 3), (''10.0.0.2'', 3)] [(''10.0.0.1'', 0), (''10.0.0.2'', 0)])
        ''n'' ''n|c|3'' ''10.0.0.3'' True)
     = demo_online ''n|c|3'' [(''10.0.0.1'', 3), (''10.0.0.2'', 3)]
         [(''10.0.0.1'', 0), (''10.0.0.2'', 0), (''10.0.0.3'', 0)]
   \<and> GetUserBucket demo_alive (\<lambda>k. NotFound)
        (demo_online ''n|c|3'' [(''10.0.0.1'', 3), (''10.0.0.2'', 3)]
           [(''10.0.0.1'', 0), (''10.0.0.2'', 0), (''10.0.0.3'', 0)])
        ''n'' ''n|c|3'' ''10.0.0.1'' True
     = ((None, False, False), [LogDebug ''Get Inbound Limiter information failed''],
        demo_online ''n|c|3'' [(''10.0.0.1'', 3), (''10.0.0.2'', 3)]
          [(''10.0.0.1'', 0), (''10.0.0.2'', 0), (''10.0.0.3'', 0)])"
proof -
  let ?two = "demo_online ''n|c|3'' [(''10.0.0.1'', 3), (''10.0.0.2'', 3)] [(''10.0.0.1'', 0), (''10.0.0.2'', 0)]"
  let ?inb = "demo_inbound\<lparr>UserOnlineIP := [(''n|c|3'', [(''10.0.0.1'', 3), (''10.0.0.2'', 3)])],
                 ipAllowedMap := [(''10.0.0.1'', 0), (''10.0.0.2'', 0)]\<rparr>"
  have e1: "GetUserBucket demo_alive (\<lambda>k. NotFound) demo_limiter ''n'' ''n|c|3'' ''10.0.0.1'' True
     = ((None, False, False), [LogDebug ''Get Inbound Limiter information failed''],
        demo_online ''n|c|3'' [(''10.0.0.1'', 3)] [(''10.0.0.1'', 0)])"
    by (simp add: demo_eval)
  have e2: "GetUserBucket demo_alive (\<lambda>k. NotFound)
        (demo_online ''n|c|3'' [(''10.0.0.1'', 3)] [(''10.0.0.1'', 0)]) ''n'' ''n|c|3'' ''10.0.0.2'' True
     = ((None, False, False), [LogDebug ''Get Inbound Limiter information failed''], ?two)"
    by (simp add: demo_eval)
  have reg: "Load (InboundInfo ?two) ''n'' = Some ?inb"
    by (simp add: demo_online_def Load_def)
  have new: "Load (onlineIPs ?inb ''n|c|3'') ''10.0.0.3'' = None"
    by (simp add: onlineIPs_def Load_def)
  have cond: "ipAllowed ''10.0.0.3'' (GetUserAliveIPs demo_alive (UID (userOf ?inb ''n|c|3''))) \<noteq> 1
      \<and> 0 < DeviceLimit (userOf ?inb ''n|c|3'')
      \<and> DeviceLimit (userOf ?inb ''n|c|3'')
          < int (length (onlineIPs ?inb ''n|c|3'')) + 1
              + int (length (GetUserAliveIPs demo_alive (UID (userOf ?inb ''n|c|3''))))"
    by (simp add: userOf_def demo_inbound_def Load_def onlineIPs_def GetUserAliveIPs_def
        demo_alive_def ipAllowed_def)
  have e3: "Reject (GetUserBucket demo_alive (\<lambda>k. NotFound) ?two ''n'' ''n|c|3'' ''10.0.0.3'' True)"
    using local_device_limit [OF reg refl refl refl, where email = "''n|c|3''" and alive = demo_alive
        and cache = "\<lambda>k. NotFound" and ip = "''10.0.0.3''"]
      new cond by auto
  have s3: "registry (GetUserBucket demo_alive (\<lambda>k. NotFound) ?two ''n'' ''n|c|3'' ''10.0.0.3'' True)
     = demo_online ''n|c|3'' [(''10.0.0.1'', 3), (''10.0.0.2'', 3)]
         [(''10.0.0.1'', 0), (''10.0.0.2'', 0), (''10.0.0.3'', 0)]"
    by (simp add: demo_eval)
  have e4: "GetUserBucket demo_alive (\<lambda>k. NotFound)
        (demo_online ''n|c|3'' [(''10.0.0.1'', 3), (''10.0.0.2'', 3)]
           [(''10.0.0.1'', 0), (''10.0.0.2'', 0), (''10.0.0.3'', 0)])
        ''n'' ''n|c|3'' ''10.0.0.1'' True
     = ((None, False, False), [LogDebug ''Get Inbound Limiter information failed''],
        demo_online ''n|c|3'' [(''10.0.0.1'', 3), (''10.0.0.2'', 3)]
          [(''10.0.0.1'', 0), (''10.0.0.2'', 0), (''10.0.0.3'', 0)])"
    by (simp add: demo_eval)
  from e1 e2 e3 s3 e4 show ?thesis by (intro conjI)
qed

text \<open>
  C1 as stated fails where global limiting is enabled: the IP 10.0.0.9 is new, the
  count 1 does not exceed the device limit 2, the IP is registered, and the call is
  rejected all the same, by the ledger, which holds three entries.
\<close>

theorem local_device_limit_counterexample:
  "Load (onlineIPs demo_global_inbound ''n|c|3'') ''10.0.0.9'' = None
   \<and> \<not> (DeviceLimit (userOf demo_global_inbound ''n|c|3'')
          < int (length (onlineIPs demo_global_inbound ''n|c|3'')) + 1
              + int (length (GetUserAliveIPs demo_alive (UID (userOf demo_global_inbound ''n|c|3'')))))
   \<and> Reject (GetUserBucket demo_alive
        (\<lambda>k. Found [''10.0.0.1'' \<mapsto> 3, ''10.0.0.2'' \<mapsto> 3, ''10.0.0.3'' \<mapsto> 3])
        demo_global_limiter ''n'' ''n|c|3'' ''10.0.0.9'' True)
   \<and> Load (InboundInfo (registry (GetUserBucket demo_alive
        (\<lambda>k. Found [''10.0.0.1'' \<mapsto> 3, ''10.0.0.2'' \<mapsto> 3, ''10.0.0.3'' \<mapsto> 3])
        demo_global_limiter ''n'' ''n|c|3'' ''10.0.0.9'' True))) ''n''
     = Some (demo_global_inbound\<lparr>UserOnlineIP := [(''n|c|3'', [(''10.0.0.9'', 3)])],
               ipAllowedMap := [(''10.0.0.9'', 0)]\<rparr>)"
  by (simp add: demo_eval)

text \<open>
  C3, as amended. A connection-oriented attempt on an existing inbound from an IP of
  the allow-list of the user is never rejected by the local device tracker, however
  many devices are registered: the call is rejected exactly when the global ledger
  rejects it, hence never on an inbound without an enabled global configuration. The
  IP is cached as pinned and registered in the OnlineIPSet like any other, and there it
  counts: once a pinned IP has been added to a set of \<open>n\<close> IPs, a later new unpinned
  IP of the same user is rejected as soon as the device limit is positive and below
  \<open>n + 2\<close> plus the size of the allow-list.
\<close>

theorem pinned_ip:
  assumes reg: "Load (InboundInfo l) tag = Some inb"
    and u: "u = userOf inb email"
    and a: "aliveIPs = GetUserAliveIPs alive (UID u)"
    and r: "R = GetUserBucket alive cache l tag email ip True"
    and pinned: "ip \<in> set aliveIPs"
  shows "\<exists>inb'. Load (InboundInfo (registry R)) tag = Some inb'
     \<and> (Reject R \<longleftrightarrow> fst (globalStage cache inb email (UID u) ip (DeviceLimit u)))
     \<and> ((\<forall>config. GlobalLimit_config inb = Some config \<longrightarrow> \<not> Enable config) \<longrightarrow> \<not> Reject R)
     \<and> Load (ipAllowedMap inb') ip = Some 1
     \<and> onlineIPs inb' email =
          (if Load (onlineIPs inb email) ip = None then onlineIPs inb email @ [(ip, UID u)]
           else onlineIPs inb email)
     \<and> (\<forall>ip2 cache2.
           Load (onlineIPs inb email) ip = None \<and> ip2 \<noteq> ip \<and> Load (onlineIPs inb email) ip2 = None
           \<and> ip2 \<notin> set aliveIPs \<and> 0 < DeviceLimit u
           \<and> DeviceLimit u < int (length (onlineIPs inb email)) + 2 + int (length aliveIPs)
           \<longrightarrow> Reject (GetUserBucket alive cache2 (registry R) tag email ip2 True))"
proof -
  have st: "ipAllowed ip aliveIPs = 1"
    using pinned by (auto simp: ipAllowed_eq)
  from GetUserBucket_tcp [OF reg, of alive cache email ip, folded u r]
  obtain inb' where
    here: "Load (InboundInfo (registry R)) tag = Some inb'"
    and users: "UserOnlineIP inb' = UserOnlineIP (snd (localDeviceLimit alive inb email ip (UID u) (DeviceLimit u)))"
    and allowed: "ipAllowedMap inb' = ipAllowedMap (snd (localDeviceLimit alive inb email ip (UID u) (DeviceLimit u)))"
    and info: "UserInfo inb' = UserInfo inb"
    and rej: "Reject R \<longleftrightarrow> fst (localDeviceLimit alive inb email ip (UID u) (DeviceLimit u))
          \<or> fst (globalStage cache inb email (UID u) ip (DeviceLimit u))"
    by (elim exE conjE) (rule that, assumption+)
  have loc: "localDeviceLimit alive inb email ip (UID u) (DeviceLimit u) =
      (False, if Load (onlineIPs inb email) ip = None
              then inb\<lparr>ipAllowedMap := Store (ipAllowedMap inb) ip 1,
                       UserOnlineIP := Store (UserOnlineIP inb) email (onlineIPs inb email @ [(ip, UID u)])\<rparr>
              else inb\<lparr>ipAllowedMap := Store (ipAllowedMap inb) ip 1\<rparr>)"
  proof (cases "Load (onlineIPs inb email) ip")
    case None
    then show ?thesis using st by (simp add: localDeviceLimit_new a [symmetric])
  next
    case (Some v)
    then show ?thesis using st by (simp add: localDeviceLimit_member a [symmetric])
  qed
  have rejg: "Reject R \<longleftrightarrow> fst (globalStage cache inb email (UID u) ip (DeviceLimit u))"
    using rej by (simp add: loc)
  have off: "(\<forall>config. GlobalLimit_config inb = Some config \<longrightarrow> \<not> Enable config) \<longrightarrow> \<not> Reject R"
    using rejg globalStage_disabled [of inb cache email "UID u" ip "DeviceLimit u"] by blast
  have cached: "Load (ipAllowedMap inb') ip = Some 1"
    using allowed by (simp add: loc Load_Store)
  have set': "onlineIPs inb' email =
          (if Load (onlineIPs inb email) ip = None then onlineIPs inb email @ [(ip, UID u)]
           else onlineIPs inb email)"
    using users by (simp add: loc onlineIPs_def Load_Store)
  have later: "Reject (GetUserBucket alive cache2 (registry R) tag email ip2 True)"
    if new: "Load (onlineIPs inb email) ip = None" and ne: "ip2 \<noteq> ip"
      and new2: "Load (onlineIPs inb email) ip2 = None" and unp: "ip2 \<notin> set aliveIPs"
      and pos: "0 < DeviceLimit u"
      and over: "DeviceLimit u < int (length (onlineIPs inb email)) + 2 + int (length aliveIPs)"
    for ip2 cache2
  proof -
    have u': "userOf inb' email = u" by (simp add: userOf_def info u)
    have s2: "ipAllowed ip2 aliveIPs = 2"
      using unp pinned by (auto simp: ipAllowed_eq)
    have n2: "Load (onlineIPs inb' email) ip2 = None"
      using new new2 ne by (simp add: set' Load_def)
    have len: "length (onlineIPs inb' email) = length (onlineIPs inb email) + 1"
      using new by (simp add: set')
    have "fst (localDeviceLimit alive inb' email ip2 (UID u) (DeviceLimit u))"
      using s2 pos over by (simp add: localDeviceLimit_new [OF n2] a [symmetric] len)
    then show ?thesis
      using GetUserBucket_tcp [OF here, of alive cache2 email ip2] by (auto simp: u')
  qed
  show ?thesis
    using here rejg off cached set' later
    by (intro exI [of _ inb'] conjI) blast+
qed

theorem pinned_ip_witness:
  "\<not> Reject (GetUserBucket demo_alive (\<lambda>k. NotFound)
        (demo_online ''n|b|2'' [(''10.0.0.8'', 2)] [(''10.0.0.8'', 2)]) ''n'' ''n|b|2'' ''10.0.0.7'' True)
   \<and> Reject (GetUserBucket demo_alive (\<lambda>k. NotFound)
        (registry (GetUserBucket demo_alive (\<lambda>k. NotFound)
           (demo_online ''n|b|2'' [(''10.0.0.8'', 2)] [(''10.0.0.8'', 2)]) ''n'' ''n|b|2'' ''10.0.0.7'' True))
        ''n'' ''n|b|2'' ''10.0.0.9'' True)"
proof -
  let ?l = "demo_online ''n|b|2'' [(''10.0.0.8'', 2)] [(''10.0.0.8'', 2)]"
  let ?inb = "demo_inbound\<lparr>UserOnlineIP := [(''n|b|2'', [(''10.0.0.8'', 2)])],
                 ipAllowedMap := [(''10.0.0.8'', 2)]\<rparr>"
  have reg: "Load (InboundInfo ?l) ''n'' = Some ?inb"
    by (simp add: demo_online_def Load_def)
  have u: "userOf ?inb ''n|b|2'' = \<lparr>UID = 2, SpeedLimit = 7, DeviceLimit = 3\<rparr>"
    by (simp add: userOf_def demo_inbound_def Load_def)
  have al: "GetUserAliveIPs demo_alive 2 = [''10.0.0.7'']"
    by (simp add: GetUserAliveIPs_def demo_alive_def)
  have pinned: "''10.0.0.7'' \<in> set (GetUserAliveIPs demo_alive (UID (userOf ?inb ''n|b|2'')))"
    by (simp add: u al)
  have off: "GlobalLimit_config ?inb = None"
    by (simp add: demo_inbound_def)
  have ips: "onlineIPs ?inb ''n|b|2'' = [(''10.0.0.8'', 2)]"
    by (simp add: onlineIPs_def Load_def)
  from pinned_ip [OF reg refl refl refl pinned, where cache = "\<lambda>k. NotFound"]
  show ?thesis
    by (elim exE conjE) (simp add: u al off ips Load_def)
qed

text \<open>
  C3 as stated fails twice. With global limiting enabled the pinned IP 10.0.0.7 of
  user 2 is rejected, by the ledger. And a pinned IP is counted: user 2 has device
  limit 3, one pinned IP and 10.0.0.8 online; the unpinned 10.0.0.9 is admitted when it
  comes first and rejected when it comes after the pinned 10.0.0.7 has been registered.
\<close>

theorem pinned_ip_counterexample:
  "Reject (GetUserBucket demo_alive
      (\<lambda>k. Found [''10.0.0.1'' \<mapsto> 2, ''10.0.0.2'' \<mapsto> 2, ''10.0.0.3'' \<mapsto> 2, ''10.0.0.4'' \<mapsto> 2])
      demo_global_limiter ''n'' ''n|b|2'' ''10.0.0.7'' True)
   \<and> ipAllowed ''10.0.0.7'' (GetUserAliveIPs demo_alive 2) = 1
   \<and> \<not> Reject (GetUserBucket demo_alive (\<lambda>k. NotFound)
        (demo_online ''n|b|2'' [(''10.0.0.8'', 2)] [(''10.0.0.8'', 2)]) ''n'' ''n|b|2'' ''10.0.0.9'' True)
   \<and> Reject (GetUserBucket demo_alive (\<lambda>k. NotFound)
        (registry (GetUserBucket demo_alive (\<lambda>k. NotFound)
           (demo_online ''n|b|2'' [(''10.0.0.8'', 2)] [(''10.0.0.8'', 2)]) ''n'' ''n|b|2'' ''10.0.0.7'' True))
        ''n'' ''n|b|2'' ''10.0.0.9'' True)"
  by (simp add: demo_eval)

subsection \<open>Bound IPs are classified\<close>

text \<open>
  \<^verbatim>\<open>GetUserBucket\<close> caches the classification of an IP before it binds it, a cycle
  only removes bound IPs, and a new inbound has none: an inbound that is built by
  \<^verbatim>\<open>AddInboundLimiter\<close> and used through these operations is always classified.
\<close>

lemma set_Store: "set (Store m k v) \<subseteq> insert (k, v) (set m)"
  unfolding Store_def by (induction m) auto

lemma set_Delete: "set (Delete m k) \<subseteq> set m"
  by (auto simp: Delete_def AList.delete_eq)

lemma Load_in_set: "Load m k = Some v \<Longrightarrow> (k, v) \<in> set m"
  by (simp add: Load_def map_of_SomeD)

lemma onlineIPs_in_set:
  assumes "e \<in> set (onlineIPs inb email)"
  shows "\<exists>entry \<in> set (UserOnlineIP inb). e \<in> set (snd entry)"
proof (cases "Load (UserOnlineIP inb) email")
  case None
  then show ?thesis using assms by (simp add: onlineIPs_def)
next
  case (Some m)
  then have "(email, m) \<in> set (UserOnlineIP inb)" by (rule Load_in_set)
  then show ?thesis using Some assms by (force simp: onlineIPs_def)
qed

lemma localDeviceLimit_classified:
  assumes "classified inb"
  shows "classified (snd (localDeviceLimit alive inb email ip uid dl))"
proof (cases "Load (onlineIPs inb email) ip")
  case None
  show ?thesis
    unfolding localDeviceLimit_new [OF None] classified_def
    using assms onlineIPs_in_set [of _ inb email] set_Store [of "UserOnlineIP inb" email]
    by (fastforce simp: classified_def Load_Store)
next
  case (Some v)
  show ?thesis
    unfolding localDeviceLimit_member [OF Some] classified_def
    using assms by (auto simp: classified_def Load_Store)
qed

lemma classified_cong:
  "UserOnlineIP a = UserOnlineIP b \<Longrightarrow> ipAllowedMap a = ipAllowedMap b \<Longrightarrow>
     classified a = classified b"
  by (simp add: classified_def)

lemma GetUserBucket_classified:
  assumes reg: "Load (InboundInfo l) tag = Some inb" and inv: "classified inb"
  shows "\<exists>inb'. Load (InboundInfo (registry (GetUserBucket alive cache l tag email ip isSourceTCP))) tag
           = Some inb' \<and> classified inb'"
proof (cases isSourceTCP)
  case True
  from GetUserBucket_tcp [OF reg, of alive cache email ip]
  obtain inb' where
    here: "Load (InboundInfo (registry (GetUserBucket alive cache l tag email ip True))) tag = Some inb'"
    and users: "UserOnlineIP inb' = UserOnlineIP (snd (localDeviceLimit alive inb email ip
                  (UID (userOf inb email)) (DeviceLimit (userOf inb email))))"
    and allowed: "ipAllowedMap inb' = ipAllowedMap (snd (localDeviceLimit alive inb email ip
                  (UID (userOf inb email)) (DeviceLimit (userOf inb email))))"
    by (elim exE conjE) (rule that, assumption+)
  have "classified inb'"
    using classified_cong [OF users allowed] localDeviceLimit_classified [OF inv] by simp
  with here True show ?thesis by auto
next
  case False
  then show ?thesis
    using reg inv
    by (auto simp: GetUserBucket_def Let_def registry_def Load_Store LoadOrStore_def
        classified_def split: option.split)
qed

lemma foldl_rangeUser_subset:
  "set (snd (foldl (rangeUser allowed tr PrevT PrevO T) st users)) \<subseteq> set (snd st)"
proof (induction users arbitrary: st)
  case Nil then show ?case by simp
next
  case (Cons u users)
  have "set (snd (rangeUser allowed tr PrevT PrevO T st u)) \<subseteq> set (snd st)"
    using set_Delete [of "snd st" "fst u"] by (simp add: rangeUser_def Let_def)
  with Cons.IH [of "rangeUser allowed tr PrevT PrevO T st u"] show ?case by auto
qed

lemma GetOnlineDevice_classified:
  assumes reg: "Load (InboundInfo l) tag = Some inb" and inv: "classified inb"
    and run: "GetOnlineDevice l tag tr T = Inr (report, changed, l')"
  shows "\<exists>inb'. Load (InboundInfo l') tag = Some inb' \<and> classified inb'"
proof -
  have sub: "set (snd (reconcile inb tr T)) \<subseteq> set (UserOnlineIP inb)"
    using foldl_rangeUser_subset
      [of "ipAllowedMap inb" tr "collect (Otraffic inb)" "collect (OnlineDevice inb)" T
          "(\<lparr>v_uid = 0, v_X = 0, v_A = 0, v_pip = [], onlineUser = [], diff = False,
             newOnlineDevice = [], newOtraffic = []\<rparr>, UserOnlineIP inb)" "UserOnlineIP inb"]
    by (simp add: reconcile_def Let_def)
  have kept: "classified (inb\<lparr>BucketHub := h, UserOnlineIP := snd (reconcile inb tr T),
      OnlineDevice := d, Otraffic := t\<rparr>)" for h d t
    unfolding classified_def
  proof (intro ballI)
    fix entry e
    assume "entry \<in> set (UserOnlineIP (inb\<lparr>BucketHub := h, UserOnlineIP := snd (reconcile inb tr T),
      OnlineDevice := d, Otraffic := t\<rparr>))" and e: "e \<in> set (snd entry)"
    then have "entry \<in> set (UserOnlineIP inb)" using sub by auto
    with inv e show "Load (ipAllowedMap (inb\<lparr>BucketHub := h, UserOnlineIP := snd (reconcile inb tr T),
      OnlineDevice := d, Otraffic := t\<rparr>)) (fst e) \<noteq> None"
      by (simp add: classified_def)
  qed
  show ?thesis
    using reg run kept
    by (auto simp: GetOnlineDevice_def Let_def Load_Store)
qed

lemma AddInboundLimiter_classified:
  assumes "AddInboundLimiter l tag nodeSpeedLimit userList config = Inr l'"
  shows "\<exists>inb'. Load (InboundInfo l') tag = Some inb' \<and> classified inb'"
  using assms by (auto simp: AddInboundLimiter_def Let_def Load_Store classified_def)

subsection \<open>The online/traffic reconciler\<close>

lemma rangeIP_report:
  assumes "Load allowed (fst e) \<noteq> None"
  shows "onlineUser (rangeIP allowed tr PrevT PrevO T c e) =
     onlineUser c @ reported allowed (\<lambda>uid. index 0 tr uid - index 0 PrevT uid) T e"
  using assms by (auto simp: rangeIP_def Let_def reported_def)

lemma foldl_rangeIP_report:
  "\<forall>e \<in> set ipMap. Load allowed (fst e) \<noteq> None \<Longrightarrow>
     onlineUser (foldl (rangeIP allowed tr PrevT PrevO T) c ipMap) =
       onlineUser c @ concat (map (reported allowed (\<lambda>uid. index 0 tr uid - index 0 PrevT uid) T) ipMap)"
  by (induction ipMap arbitrary: c) (simp_all add: rangeIP_report)

lemma rangeUser_report:
  assumes "\<forall>e \<in> set (snd entry). Load allowed (fst e) \<noteq> None"
  shows "onlineUser (fst (rangeUser allowed tr PrevT PrevO T st entry)) =
     onlineUser (fst st)
       @ concat (map (reported allowed (\<lambda>uid. index 0 tr uid - index 0 PrevT uid) T) (snd entry))"
  using assms by (simp add: rangeUser_def Let_def foldl_rangeIP_report)

lemma foldl_rangeUser_report:
  "\<forall>entry \<in> set users. \<forall>e \<in> set (snd entry). Load allowed (fst e) \<noteq> None \<Longrightarrow>
     onlineUser (fst (foldl (rangeUser allowed tr PrevT PrevO T) st users)) =
       onlineUser (fst st)
         @ concat (map (\<lambda>entry. concat (map (reported allowed
               (\<lambda>uid. index 0 tr uid - index 0 PrevT uid) T) (snd entry))) users)"
  by (induction users arbitrary: st) (simp_all add: rangeUser_report)

lemma reconcile_report:
  assumes "\<forall>entry \<in> set (UserOnlineIP inb). \<forall>e \<in> set (snd entry). Load (ipAllowedMap inb) (fst e) \<noteq> None"
  shows "onlineUser (fst (reconcile inb tr T)) =
     concat (map (\<lambda>entry. concat (map (reported (ipAllowedMap inb) (delta tr (Otraffic inb)) T)
                                     (snd entry))) (UserOnlineIP inb))"
  using foldl_rangeUser_report [OF assms]
  by (simp add: reconcile_def Let_def delta_def [abs_def])

lemma GetOnlineDevice_Inr:
  assumes "Load (InboundInfo l) tag = Some inb"
  shows "\<exists>l' inb'. GetOnlineDevice l tag tr T =
        Inr (onlineUser (fst (reconcile inb tr T)), diff (fst (reconcile inb tr T)), l')
     \<and> Load (InboundInfo l') tag = Some inb'
     \<and> OnlineDevice inb' = newOnlineDevice (fst (reconcile inb tr T))"
  using assms by (simp add: GetOnlineDevice_def Let_def Load_Store)

lemma rangeIP_eval:
  "rangeIP allowed tr PrevT PrevO T c (ip, uid) =
     (if (case Load allowed ip of Some a \<Rightarrow> a | None \<Rightarrow> v_A c) \<noteq> 2 then
        c\<lparr>v_uid := uid,
          v_A := (case Load allowed ip of Some a \<Rightarrow> a | None \<Rightarrow> v_A c),
          v_X := index 0 tr uid - index 0 PrevT uid,
          v_pip := index [] PrevO uid,
          newOtraffic := Store (newOtraffic c) uid (index 0 tr uid),
          diff := (diff c \<or> index [] PrevO uid
                     \<noteq> (if index 0 tr uid - index 0 PrevT uid \<le>s T then [] else ip)),
          onlineUser := onlineUser c @ [\<lparr>OnlineUser_UID = uid,
              OnlineUser_IP = (if index 0 tr uid - index 0 PrevT uid \<le>s T then [] else ip)\<rparr>],
          newOnlineDevice := Store (newOnlineDevice c) uid
              (if index 0 tr uid - index 0 PrevT uid \<le>s T then [] else ip)\<rparr>
      else
        c\<lparr>v_uid := uid,
          v_A := (case Load allowed ip of Some a \<Rightarrow> a | None \<Rightarrow> v_A c),
          v_X := index 0 tr uid - index 0 PrevT uid,
          v_pip := index [] PrevO uid,
          newOtraffic := Store (newOtraffic c) uid (index 0 tr uid)\<rparr>)"
  by (cases "Load allowed ip") (auto simp: rangeIP_def Let_def)

lemmas cycle_eval =
  GetOnlineDevice_def reconcile_def rangeUser_def rangeIP_eval Let_def collect_def index_def
  Load_def Store_def Delete_def demo_cycle_def demo_inbound_def word_sle_eq

text \<open>
  C6, as amended. A cycle of \<^verbatim>\<open>GetOnlineDevice\<close> on an existing inbound in which every
  bound IP has a cached classification (an inbound is always so, as shown above)
  returns this report, user by user and IP by IP in the
  order of the two ranges: for an IP whose cached classification is not unpinned, that
  is no-list (0) or pinned (1), the UID with the empty IP when the traffic delta of the
  user (current cumulative minus the cumulative of the previous cycle, in 64 bits) is at
  most \<open>T\<close>, and the UID with the bound IP when the delta is above \<open>T\<close>; for an
  IP whose cached classification is unpinned (2), nothing.
\<close>

theorem online_report:
  assumes "Load (InboundInfo l) tag = Some inb"
    and "classified inb"
  shows "\<exists>changed l'. GetOnlineDevice l tag userTraffic T =
     Inr (concat (map (\<lambda>entry. concat (map (reported (ipAllowedMap inb)
                                               (delta userTraffic (Otraffic inb)) T) (snd entry)))
                    (UserOnlineIP inb)),
          changed, l')"
  using GetOnlineDevice_Inr [OF assms(1), of userTraffic T]
    reconcile_report [OF assms(2) [unfolded classified_def], of userTraffic T]
  by auto

theorem online_report_witness:
  "\<exists>changed l'.
     GetOnlineDevice
       (demo_cycle [(''n|a|1'', [(''10.0.0.1'', 1), (''10.0.0.9'', 1)]), (''n|c|3'', [(''10.0.0.3'', 3)])]
          [(''10.0.0.1'', 1), (''10.0.0.9'', 2), (''10.0.0.3'', 0)]
          [(1, ''10.0.0.1''), (3, ''10.0.0.3'')] [(1, 100), (3, 100)])
       ''n'' [1 \<mapsto> 500, 3 \<mapsto> 100] 0
     = Inr ([\<lparr>OnlineUser_UID = 1, OnlineUser_IP = ''10.0.0.1''\<rparr>,
             \<lparr>OnlineUser_UID = 3, OnlineUser_IP = []\<rparr>], changed, l')"
proof -
  let ?inb = "demo_inbound\<lparr>BucketHub := [],
      UserOnlineIP := [(''n|a|1'', [(''10.0.0.1'', 1), (''10.0.0.9'', 1)]), (''n|c|3'', [(''10.0.0.3'', 3)])],
      OnlineDevice := [(1, ''10.0.0.1''), (3, ''10.0.0.3'')],
      ipAllowedMap := [(''10.0.0.1'', 1), (''10.0.0.9'', 2), (''10.0.0.3'', 0)],
      Otraffic := [(1, 100), (3, 100)]\<rparr>"
  have reg: "Load (InboundInfo (demo_cycle
          [(''n|a|1'', [(''10.0.0.1'', 1), (''10.0.0.9'', 1)]), (''n|c|3'', [(''10.0.0.3'', 3)])]
          [(''10.0.0.1'', 1), (''10.0.0.9'', 2), (''10.0.0.3'', 0)]
          [(1, ''10.0.0.1''), (3, ''10.0.0.3'')] [(1, 100), (3, 100)])) ''n'' = Some ?inb"
    by (simp add: demo_cycle_def Load_def)
  have cached: "classified ?inb"
    by (simp add: classified_def Load_def)
  have rep: "concat (map (\<lambda>entry. concat (map (reported (ipAllowedMap ?inb)
                  (delta [1 \<mapsto> 500, 3 \<mapsto> 100] (Otraffic ?inb)) 0) (snd entry)))
                    (UserOnlineIP ?inb))
      = [\<lparr>OnlineUser_UID = 1, OnlineUser_IP = ''10.0.0.1''\<rparr>,
         \<lparr>OnlineUser_UID = 3, OnlineUser_IP = []\<rparr>]"
    by (simp add: reported_def delta_def index_def collect_def Load_def word_sle_eq)
  from online_report [OF reg cached, of "[1 \<mapsto> 500, 3 \<mapsto> 100]" 0] show ?thesis
    unfolding rep .
qed

text \<open>
  C6 as stated fails. User 1 is bound to the unpinned IP 10.0.0.9 and user 2 to the
  pinned IP 10.0.0.7. Without traffic (delta 0, threshold 0) user 1 is left out of the
  report instead of being in it with an empty IP, and user 2 is in it with an empty IP
  instead of its bound IP. With traffic above the threshold user 1 is still left out.
\<close>

theorem online_report_counterexample:
  "(\<exists>changed l'.
      GetOnlineDevice
        (demo_cycle [(''n|a|1'', [(''10.0.0.9'', 1)]), (''n|b|2'', [(''10.0.0.7'', 2)])]
           [(''10.0.0.9'', 2), (''10.0.0.7'', 1)] [] [])
        ''n'' Map.empty 0
      = Inr ([\<lparr>OnlineUser_UID = 2, OnlineUser_IP = []\<rparr>], changed, l'))
   \<and> (\<exists>changed l'.
      GetOnlineDevice
        (demo_cycle [(''n|a|1'', [(''10.0.0.9'', 1)]), (''n|b|2'', [(''10.0.0.7'', 2)])]
           [(''10.0.0.9'', 2), (''10.0.0.7'', 1)] [] [])
        ''n'' [1 \<mapsto> 50, 2 \<mapsto> 50] 0
      = Inr ([\<lparr>OnlineUser_UID = 2, OnlineUser_IP = ''10.0.0.7''\<rparr>], changed, l'))"
  by (auto simp: cycle_eval)

text \<open>The snapshot of a cycle and the flag \<open>diff\<close>.\<close>

lemma collect_eq: "collect m = map_of (rev m)"
proof -
  have "foldl (\<lambda>acc (k, v). acc(k \<mapsto> v)) acc m = acc ++ map_of (rev m)" for acc :: "'a \<rightharpoonup> 'b"
    by (induction m arbitrary: acc) (auto simp: map_add_upd_left)
  then show ?thesis by (simp add: collect_def)
qed

lemma map_of_rev_distinct: "distinct (map fst xs) \<Longrightarrow> map_of (rev xs) = map_of xs"
proof (induction xs)
  case Nil then show ?case by simp
next
  case (Cons x xs)
  then have "fst x \<notin> dom (map_of (rev xs))" by (simp add: dom_map_of_conv_image_fst)
  then show ?case using Cons
    by (cases x) (auto simp: fun_eq_iff map_add_def domIff split: option.split)
qed

lemma collect_distinct: "distinct (map fst m) \<Longrightarrow> collect m = map_of m"
  by (simp add: collect_eq map_of_rev_distinct)

lemma distinct_Store: "distinct (map fst m) \<Longrightarrow> distinct (map fst (Store m k v))"
  by (simp add: Store_def distinct_update)

lemma map_of_Store: "map_of (Store m k v) = (map_of m)(k \<mapsto> v)"
  by (simp add: Store_def update_conv')

lemma snapshotOf_snoc:
  "snapshotOf (r @ [o']) = (snapshotOf r)(OnlineUser_UID o' \<mapsto> OnlineUser_IP o')"
  by (simp add: snapshotOf_def)

lemma rangeIP_inv:
  assumes "diff c \<longleftrightarrow> (\<exists>e \<in> set (onlineUser c). index [] PrevO (OnlineUser_UID e) \<noteq> OnlineUser_IP e)"
    and "distinct (map fst (newOnlineDevice c))"
    and "map_of (newOnlineDevice c) = snapshotOf (onlineUser c)"
  shows "(diff (rangeIP allowed tr PrevT PrevO T c x) \<longleftrightarrow>
          (\<exists>e \<in> set (onlineUser (rangeIP allowed tr PrevT PrevO T c x)).
              index [] PrevO (OnlineUser_UID e) \<noteq> OnlineUser_IP e))
       \<and> distinct (map fst (newOnlineDevice (rangeIP allowed tr PrevT PrevO T c x)))
       \<and> map_of (newOnlineDevice (rangeIP allowed tr PrevT PrevO T c x))
           = snapshotOf (onlineUser (rangeIP allowed tr PrevT PrevO T c x))"
  using assms
  by (auto simp: rangeIP_def Let_def distinct_Store map_of_Store snapshotOf_snoc split: option.split)

lemma rangeIP_consistent:
  "consistent PrevO c \<Longrightarrow> consistent PrevO (rangeIP allowed tr PrevT PrevO T c x)"
  unfolding consistent_def by (intro rangeIP_inv) simp_all

lemma foldl_rangeIP_consistent:
  "consistent PrevO c \<Longrightarrow> consistent PrevO (foldl (rangeIP allowed tr PrevT PrevO T) c ipMap)"
  by (induction ipMap arbitrary: c) (simp_all add: rangeIP_consistent)

lemma rangeUser_consistent:
  assumes "consistent PrevO (fst st)"
  shows "consistent PrevO (fst (rangeUser allowed tr PrevT PrevO T st entry))"
proof -
  have "consistent PrevO ((fst st)\<lparr>v_uid := 0, v_X := 0, v_A := 0, v_pip := []\<rparr>)"
    using assms by (simp add: consistent_def)
  then show ?thesis
    by (simp add: rangeUser_def Let_def foldl_rangeIP_consistent)
qed

lemma foldl_rangeUser_consistent:
  "consistent PrevO (fst st) \<Longrightarrow>
     consistent PrevO (fst (foldl (rangeUser allowed tr PrevT PrevO T) st users))"
  by (induction users arbitrary: st) (simp_all add: rangeUser_consistent)

lemma reconcile_consistent:
  "consistent (collect (OnlineDevice inb)) (fst (reconcile inb tr T))"
  unfolding reconcile_def Let_def
  by (rule foldl_rangeUser_consistent) (simp add: consistent_def snapshotOf_def)

lemma snapshotOf_distinct:
  assumes "distinct (map OnlineUser_UID r)" and "e \<in> set r"
  shows "snapshotOf r (OnlineUser_UID e) = Some (OnlineUser_IP e)"
proof -
  have "distinct (map fst (rev (map (\<lambda>entry. (OnlineUser_UID entry, OnlineUser_IP entry)) r)))"
    using assms(1) by (simp add: rev_map [symmetric] comp_def)
  moreover have "(OnlineUser_UID e, OnlineUser_IP e)
      \<in> set (rev (map (\<lambda>entry. (OnlineUser_UID entry, OnlineUser_IP entry)) r))"
    using assms(2) by auto
  ultimately show ?thesis
    unfolding snapshotOf_def by (rule map_of_is_SomeI)
qed

text \<open>
  C7, as amended. Take a cycle of \<^verbatim>\<open>GetOnlineDevice\<close> and a later cycle on the same
  tag that starts from the online snapshot the first one left. That snapshot holds for
  each UID the IP of its last entry in the first report. The later cycle returns
  changed = true if and only if some entry of its own report, hence an entry of the
  returned list, has an IP other than the IP of the snapshot for its UID (the empty IP
  when the snapshot has none). In particular, when the two reports have the same
  entries and no UID occurs twice in the first, changed is false.
\<close>

theorem changed_flag:
  assumes c1: "GetOnlineDevice l tag traffic1 T1 = Inr (report1, changed1, l1)"
    and i1: "Load (InboundInfo l1) tag = Some inb1"
    and i2: "Load (InboundInfo l2) tag = Some inb2"
    and same: "OnlineDevice inb2 = OnlineDevice inb1"
    and c2: "GetOnlineDevice l2 tag traffic2 T2 = Inr (report2, changed2, l3)"
  shows "collect (OnlineDevice inb2) = snapshotOf report1
     \<and> (changed2 \<longleftrightarrow>
          (\<exists>e \<in> set report2. index [] (snapshotOf report1) (OnlineUser_UID e) \<noteq> OnlineUser_IP e))
     \<and> (set report2 = set report1 \<and> distinct (map OnlineUser_UID report1) \<longrightarrow> \<not> changed2)"
proof -
  obtain inb0 where reg0: "Load (InboundInfo l) tag = Some inb0"
    using c1 by (cases "Load (InboundInfo l) tag") (simp_all add: GetOnlineDevice_def)
  from GetOnlineDevice_Inr [OF reg0, of traffic1 T1] c1 i1
  have r1: "report1 = onlineUser (fst (reconcile inb0 traffic1 T1))"
    and d1: "OnlineDevice inb1 = newOnlineDevice (fst (reconcile inb0 traffic1 T1))"
    by auto
  have k1: "consistent (collect (OnlineDevice inb0)) (fst (reconcile inb0 traffic1 T1))"
    by (rule reconcile_consistent)
  have snap: "collect (OnlineDevice inb2) = snapshotOf report1"
    using k1 by (simp add: consistent_def same d1 r1 collect_distinct)
  from GetOnlineDevice_Inr [OF i2, of traffic2 T2] c2
  have r2: "report2 = onlineUser (fst (reconcile inb2 traffic2 T2))"
    and f2: "changed2 = diff (fst (reconcile inb2 traffic2 T2))"
    by auto
  have k2: "consistent (collect (OnlineDevice inb2)) (fst (reconcile inb2 traffic2 T2))"
    by (rule reconcile_consistent)
  have flag: "changed2 \<longleftrightarrow>
          (\<exists>e \<in> set report2. index [] (snapshotOf report1) (OnlineUser_UID e) \<noteq> OnlineUser_IP e)"
    using k2 by (simp add: consistent_def r2 f2 snap [symmetric])
  have idem: "\<not> changed2" if eq: "set report2 = set report1"
    and dist: "distinct (map OnlineUser_UID report1)"
  proof -
    have "index [] (snapshotOf report1) (OnlineUser_UID e) = OnlineUser_IP e" if "e \<in> set report2" for e
      using snapshotOf_distinct [OF dist, of e] that eq by (simp add: index_def)
    then show ?thesis using flag by blast
  qed
  from snap flag idem show ?thesis by blast
qed

theorem changed_flag_witness:
  "GetOnlineDevice (demo_cycle [(''n|c|3'', [(''10.0.0.3'', 3)])] [(''10.0.0.3'', 0)] [] [])
       ''n'' [3 \<mapsto> 100] 0
     = Inr ([\<lparr>OnlineUser_UID = 3, OnlineUser_IP = ''10.0.0.3''\<rparr>], True,
            demo_cycle [(''n|c|3'', [(''10.0.0.3'', 3)])] [(''10.0.0.3'', 0)]
              [(3, ''10.0.0.3'')] [(3, 100)])
   \<and> GetOnlineDevice (demo_cycle [(''n|c|3'', [(''10.0.0.3'', 3)])] [(''10.0.0.3'', 0)]
              [(3, ''10.0.0.3'')] [(3, 100)])
       ''n'' [3 \<mapsto> 250] 0
     = Inr ([\<lparr>OnlineUser_UID = 3, OnlineUser_IP = ''10.0.0.3''\<rparr>], False,
            demo_cycle [(''n|c|3'', [(''10.0.0.3'', 3)])] [(''10.0.0.3'', 0)]
              [(3, ''10.0.0.3'')] [(3, 250)])"
proof -
  let ?s1 = "demo_cycle [(''n|c|3'', [(''10.0.0.3'', 3)])] [(''10.0.0.3'', 0)]
              [(3, ''10.0.0.3'')] [(3, 100)]"
  let ?inb1 = "demo_inbound\<lparr>BucketHub := [], UserOnlineIP := [(''n|c|3'', [(''10.0.0.3'', 3)])],
      OnlineDevice := [(3, ''10.0.0.3'')], ipAllowedMap := [(''10.0.0.3'', 0)],
      Otraffic := [(3, 100)]\<rparr>"
  have e1: "GetOnlineDevice (demo_cycle [(''n|c|3'', [(''10.0.0.3'', 3)])] [(''10.0.0.3'', 0)] [] [])
       ''n'' [3 \<mapsto> 100] 0
     = Inr ([\<lparr>OnlineUser_UID = 3, OnlineUser_IP = ''10.0.0.3''\<rparr>], True, ?s1)"
    by (simp add: cycle_eval)
  have i1: "Load (InboundInfo ?s1) ''n'' = Some ?inb1"
    by (simp add: demo_cycle_def Load_def)
  obtain changed2 where e2: "GetOnlineDevice ?s1 ''n'' [3 \<mapsto> 250] 0
     = Inr ([\<lparr>OnlineUser_UID = 3, OnlineUser_IP = ''10.0.0.3''\<rparr>], changed2,
            demo_cycle [(''n|c|3'', [(''10.0.0.3'', 3)])] [(''10.0.0.3'', 0)]
              [(3, ''10.0.0.3'')] [(3, 250)])"
    by (auto simp: cycle_eval)
  have "\<not> changed2"
    using changed_flag [OF e1 i1 i1 refl e2] by (simp add: snapshotOf_def index_def)
  with e1 e2 show ?thesis by simp
qed

text \<open>
  C7 as stated fails for a user with two IPs: user 3 is active in both cycles from
  10.0.0.1 and 10.0.0.2, the two reports are identical, and the second cycle returns
  changed = true all the same, since the snapshot keeps one IP for each UID.
\<close>

theorem changed_flag_counterexample:
  "GetOnlineDevice
       (demo_cycle [(''n|c|3'', [(''10.0.0.1'', 3), (''10.0.0.2'', 3)])]
          [(''10.0.0.1'', 0), (''10.0.0.2'', 0)] [] [])
       ''n'' [3 \<mapsto> 100] 0
     = Inr ([\<lparr>OnlineUser_UID = 3, OnlineUser_IP = ''10.0.0.1''\<rparr>,
             \<lparr>OnlineUser_UID = 3, OnlineUser_IP = ''10.0.0.2''\<rparr>], True,
            demo_cycle [(''n|c|3'', [(''10.0.0.1'', 3), (''10.0.0.2'', 3)])]
              [(''10.0.0.1'', 0), (''10.0.0.2'', 0)] [(3, ''10.0.0.2'')] [(3, 100)])
   \<and> GetOnlineDevice
       (demo_cycle [(''n|c|3'', [(''10.0.0.1'', 3), (''10.0.0.2'', 3)])]
              [(''10.0.0.1'', 0), (''10.0.0.2'', 0)] [(3, ''10.0.0.2'')] [(3, 100)])
       ''n'' [3 \<mapsto> 250] 0
     = Inr ([\<lparr>OnlineUser_UID = 3, OnlineUser_IP = ''10.0.0.1''\<rparr>,
             \<lparr>OnlineUser_UID = 3, OnlineUser_IP = ''10.0.0.2''\<rparr>], True,
            demo_cycle [(''n|c|3'', [(''10.0.0.1'', 3), (''10.0.0.2'', 3)])]
              [(''10.0.0.1'', 0), (''10.0.0.2'', 0)] [(3, ''10.0.0.2'')] [(3, 250)])"
  by (simp add: cycle_eval)

end
